theory Spec2Isabelle
  imports
    Main
    "HOL-Library.Product_Lexorder"
    "HOL-Library.Option_ord"
    "HOL-Library.Sublist"
    "HOL-Library.Monad_Syntax"
    "HOL-Library.Char_ord"
    "HOL-Library.List_Lexorder"
    "HOL-Library.Multiset"
begin

section \<open>Text primitives of SQL.py\<close>

text \<open>
  Text is a \<^typ>\<open>string\<close>: a list of characters, each read as one code point below 256.
  The functions of this section are the Python library calls that \<^verbatim>\<open>SQL.py\<close> makes on
  text (\<^verbatim>\<open>str.strip\<close>, \<^verbatim>\<open>str.replace\<close>, \<^verbatim>\<open>str.split\<close>, \<^verbatim>\<open>re.search\<close>), written out for
  the patterns and arguments the program passes to them.
\<close>

definition dq :: char where
  "dq = CHR 0x22"

definition backslash :: char where
  "backslash = CHR 0x5C"

definition newline :: char where
  "newline = CHR 0x0A"

text \<open>\<^verbatim>\<open>str.isspace\<close> on one character: tab to carriage return, the four separators
  0x1C..0x1F, the blank, NEL (0x85) and the no-break space (0xA0).\<close>

definition isspace :: "char \<Rightarrow> bool" where
  "isspace c =
     (let n = (of_char c :: nat)
      in (9 \<le> n \<and> n \<le> 13) \<or> (28 \<le> n \<and> n \<le> 32) \<or> n = 133 \<or> n = 160)"

text \<open>The pattern \<^verbatim>\<open>\d\<close> on one character: below 256 the decimal digits are 0..9.\<close>

definition isdigit :: "char \<Rightarrow> bool" where
  "isdigit c = (let n = (of_char c :: nat) in 48 \<le> n \<and> n \<le> 57)"

text \<open>\<^verbatim>\<open>s.strip()\<close>: leading and trailing whitespace removed.\<close>

definition strip :: "string \<Rightarrow> string" where
  "strip s = rev (dropWhile isspace (rev (dropWhile isspace s)))"

text \<open>\<^verbatim>\<open>s.replace(c, "")\<close> for a one-character \<^verbatim>\<open>c\<close>.\<close>

definition remove_char :: "char \<Rightarrow> string \<Rightarrow> string" where
  "remove_char c s = filter (\<lambda>x. x \<noteq> c) s"

text \<open>\<^verbatim>\<open>s.split('.')[0]\<close>: the text before the first dot, all of it when there is none.\<close>

definition before_dot :: "string \<Rightarrow> string" where
  "before_dot s = takeWhile (\<lambda>x. x \<noteq> CHR ''.'') s"

text \<open>
  The group of \<^verbatim>\<open>(.*?)d\<close> read at the head of the text, for a delimiter \<^verbatim>\<open>d\<close>: the shortest
  run of characters other than a line feed that is followed by the delimiter.
\<close>

fun lazy_until :: "char \<Rightarrow> string \<Rightarrow> string option" where
  "lazy_until d [] = None"
| "lazy_until d (c # cs) =
     (if c = d then Some []
      else if c = newline then None
      else map_option ((#) c) (lazy_until d cs))"

text \<open>
  The group of \<^verbatim>\<open>((?:[^"\\]|\\.)*)"\<close> read at the head of the text: characters other than
  the quote and the backslash, or a backslash with the character after it (not a line
  feed), up to the first quote that no backslash escapes. The two alternatives start with
  different characters and neither starts with a quote, so the greedy star has one way
  to read the text.
\<close>

fun escaped_until_quote :: "string \<Rightarrow> string option" where
  "escaped_until_quote [] = None"
| "escaped_until_quote (c # cs) =
     (if c = dq then Some []
      else if c = backslash then
        (case cs of
           [] \<Rightarrow> None
         | e # es \<Rightarrow>
             if e = newline then None
             else map_option (\<lambda>g. c # e # g) (escaped_until_quote es))
      else map_option ((#) c) (escaped_until_quote cs))"

text \<open>The group of \<^verbatim>\<open>(\d+)\<close> read at the head of the text.\<close>

definition digits1 :: "string \<Rightarrow> string option" where
  "digits1 s = (let ds = takeWhile isdigit s in if ds = [] then None else Some ds)"

text \<open>
  \<^verbatim>\<open>re.search\<close> for a pattern made of a literal text \<^verbatim>\<open>p\<close> and a group: the leftmost
  position where \<^verbatim>\<open>p\<close> stands and the group can be read after it, and the group there.
  \<^verbatim>\<open>body\<close> reads the group from the text after \<^verbatim>\<open>p\<close>.
\<close>

fun re_search :: "(string \<Rightarrow> string option) \<Rightarrow> string \<Rightarrow> string \<Rightarrow> string option" where
  "re_search body p [] = (if p = [] then body [] else None)"
| "re_search body p (c # cs) =
     (case (if prefix p (c # cs) then body (drop (length p) (c # cs)) else None) of
        Some g \<Rightarrow> Some g
      | None \<Rightarrow> re_search body p cs)"

text \<open>A key of the log line as the patterns spell it: the name in quotes, then a colon.\<close>

definition key :: "string \<Rightarrow> string" where
  "key name = dq # name @ [dq] @ '':''"

section \<open>Timestamps\<close>

text \<open>
  A \<^verbatim>\<open>datetime\<close> without time zone, as the two formats of the program build it: year,
  month, day, hour, minute, second (the microseconds are always 0). Python compares two
  of them field by field in this order.
\<close>

datatype datetime =
  Datetime (year: nat) (month: nat) (day: nat) (hour: nat) (minute: nat) (second: nat)

definition fields_of :: "datetime \<Rightarrow> nat \<times> nat \<times> nat \<times> nat \<times> nat \<times> nat" where
  "fields_of t = (year t, month t, day t, hour t, minute t, second t)"

instantiation datetime :: linorder
begin

definition less_eq_datetime :: "datetime \<Rightarrow> datetime \<Rightarrow> bool" where
  "less_eq_datetime a b \<longleftrightarrow> fields_of a \<le> fields_of b"

definition less_datetime :: "datetime \<Rightarrow> datetime \<Rightarrow> bool" where
  "less_datetime a b \<longleftrightarrow> fields_of a < fields_of b"

instance
proof
  fix a b c :: datetime
  show "a < b \<longleftrightarrow> a \<le> b \<and> \<not> b \<le> a"
    unfolding less_eq_datetime_def less_datetime_def by (rule less_le_not_le)
  show "a \<le> a"
    unfolding less_eq_datetime_def by (rule order_refl)
  show "a \<le> b \<Longrightarrow> b \<le> c \<Longrightarrow> a \<le> c"
    unfolding less_eq_datetime_def by (rule order_trans)
  show "a \<le> b \<Longrightarrow> b \<le> a \<Longrightarrow> a = b"
  proof -
    assume "a \<le> b" and "b \<le> a"
    then have "fields_of a = fields_of b"
      unfolding less_eq_datetime_def by (rule antisym)
    then show "a = b"
      by (cases a, cases b) (simp add: fields_of_def)
  qed
  show "a \<le> b \<or> b \<le> a"
    unfolding less_eq_datetime_def by (rule linear)
qed

end

definition digit_val :: "char \<Rightarrow> nat" where
  "digit_val c = of_char c - 48"

definition int_of_digits :: "string \<Rightarrow> nat" where
  "int_of_digits s = foldl (\<lambda>n c. 10 * n + digit_val c) 0 s"

text \<open>
  A numeric directive of \<^verbatim>\<open>strptime\<close> whose pattern takes one or two digits and whose
  values are \<^verbatim>\<open>lo..hi\<close>: \<^verbatim>\<open>%m\<close> is \<^verbatim>\<open>1[0-2]|0[1-9]|[1-9]\<close>, \<^verbatim>\<open>%H\<close> is \<^verbatim>\<open>2[0-3]|[0-1]\d|\d\<close>,
  \<^verbatim>\<open>%M\<close> is \<^verbatim>\<open>[0-5]\d|\d\<close> and \<^verbatim>\<open>%S\<close> is \<^verbatim>\<open>6[0-1]|[0-5]\d|\d\<close>. The text given is the whole
  text between the two literals around the directive.
\<close>

definition num_field :: "nat \<Rightarrow> nat \<Rightarrow> string \<Rightarrow> nat option" where
  "num_field lo hi s =
     (if s \<noteq> [] \<and> length s \<le> 2 \<and> list_all isdigit s
         \<and> lo \<le> int_of_digits s \<and> int_of_digits s \<le> hi
      then Some (int_of_digits s) else None)"

text \<open>\<^verbatim>\<open>%Y\<close> is \<^verbatim>\<open>\d\d\d\d\<close>.\<close>

definition year_field :: "string \<Rightarrow> nat option" where
  "year_field s =
     (if length s = 4 \<and> list_all isdigit s then Some (int_of_digits s) else None)"

text \<open>\<^verbatim>\<open>%d\<close> is \<^verbatim>\<open>3[0-1]|[1-2]\d|0[1-9]|[1-9]| [1-9]\<close>: the last alternative is a blank and
  a digit.\<close>

definition day_field :: "string \<Rightarrow> nat option" where
  "day_field s =
     (case s of
        [b, c] \<Rightarrow>
          if b = CHR '' '' then
            (if isdigit c \<and> c \<noteq> CHR ''0'' then Some (digit_val c) else None)
          else num_field 1 31 s
      | _ \<Rightarrow> num_field 1 31 s)"

definition is_leap :: "nat \<Rightarrow> bool" where
  "is_leap y = (y mod 4 = 0 \<and> (y mod 100 \<noteq> 0 \<or> y mod 400 = 0))"

definition days_in_month :: "nat \<Rightarrow> nat \<Rightarrow> nat" where
  "days_in_month y m =
     (if m = 2 then (if is_leap y then 29 else 28)
      else if m = 4 \<or> m = 6 \<or> m = 9 \<or> m = 11 then 30
      else 31)"

text \<open>
  The constructor \<^verbatim>\<open>datetime(y, m, d, H, M, S)\<close> that \<^verbatim>\<open>strptime\<close> ends with: a
  \<^verbatim>\<open>ValueError\<close> (here \<^const>\<open>None\<close>) for the year 0, a day the month does not have, or a
  second of 60 or 61, which \<^verbatim>\<open>%S\<close> lets through.
\<close>

definition make_datetime ::
  "nat \<Rightarrow> nat \<Rightarrow> nat \<Rightarrow> nat \<Rightarrow> nat \<Rightarrow> nat \<Rightarrow> datetime option" where
  "make_datetime y m d H M S =
     (if 1 \<le> y \<and> y \<le> 9999 \<and> 1 \<le> m \<and> m \<le> 12 \<and> 1 \<le> d \<and> d \<le> days_in_month y m
         \<and> H \<le> 23 \<and> M \<le> 59 \<and> S \<le> 59
      then Some (Datetime y m d H M S) else None)"

text \<open>The text before the first character that satisfies \<^verbatim>\<open>P\<close>, and the text after it.\<close>

fun split_on :: "(char \<Rightarrow> bool) \<Rightarrow> string \<Rightarrow> (string \<times> string) option" where
  "split_on P [] = None"
| "split_on P (c # cs) =
     (if P c then Some ([], cs)
      else map_option (\<lambda>(a, b). (c # a, b)) (split_on P cs))"

text \<open>
  \<^verbatim>\<open>datetime.strptime(s, "%Y-%m-%dT%H:%M:%SZ")\<close>, with \<^const>\<open>None\<close> for its \<^verbatim>\<open>ValueError\<close>.
  \<^verbatim>\<open>strptime\<close> turns the format into one regular expression, matches it ignoring case
  at the head of the text and refuses a text it does not consume whole. Every directive
  stands between literals that are not digits, so each field is the text between them.
\<close>

definition strptime_log :: "string \<Rightarrow> datetime option" where
  "strptime_log s =
     do {
       (ys, r1) \<leftarrow> split_on (\<lambda>c. c = CHR ''-'') s;
       (ms, r2) \<leftarrow> split_on (\<lambda>c. c = CHR ''-'') r1;
       (ds, r3) \<leftarrow> split_on (\<lambda>c. c = CHR ''T'' \<or> c = CHR ''t'') r2;
       (Hs, r4) \<leftarrow> split_on (\<lambda>c. c = CHR '':'') r3;
       (Ms, r5) \<leftarrow> split_on (\<lambda>c. c = CHR '':'') r4;
       (Ss, r6) \<leftarrow> split_on (\<lambda>c. c = CHR ''Z'' \<or> c = CHR ''z'') r5;
       y \<leftarrow> year_field ys;
       m \<leftarrow> num_field 1 12 ms;
       d \<leftarrow> day_field ds;
       H \<leftarrow> num_field 0 23 Hs;
       M \<leftarrow> num_field 0 59 Ms;
       S \<leftarrow> num_field 0 61 Ss;
       if r6 = [] then make_datetime y m d H M S else None
     }"

text \<open>
  The day of the bookmark's format and the whitespace after it (a blank in the format
  is \<^verbatim>\<open>\s+\<close> in the pattern): the day is a blank and a digit, or the digits up to the
  whitespace.
\<close>

definition day_then_space :: "string \<Rightarrow> (nat \<times> string) option" where
  "day_then_space r =
     (let lead = (r \<noteq> [] \<and> hd r = CHR '' '');
          r' = (if lead then tl r else r);
          ds = takeWhile isdigit r';
          rest = dropWhile isdigit r'
      in if rest = [] \<or> \<not> isspace (hd rest) then None
         else map_option (\<lambda>d. (d, dropWhile isspace rest))
                (day_field (if lead then CHR '' '' # ds else ds)))"

text \<open>\<^verbatim>\<open>datetime.strptime(s, "%Y-%m-%d %H:%M:%S")\<close>, with \<^const>\<open>None\<close> for its
  \<^verbatim>\<open>ValueError\<close>.\<close>

definition strptime_bookmark :: "string \<Rightarrow> datetime option" where
  "strptime_bookmark s =
     do {
       (ys, r1) \<leftarrow> split_on (\<lambda>c. c = CHR ''-'') s;
       (ms, r2) \<leftarrow> split_on (\<lambda>c. c = CHR ''-'') r1;
       (d, r3) \<leftarrow> day_then_space r2;
       (Hs, r4) \<leftarrow> split_on (\<lambda>c. c = CHR '':'') r3;
       (Ms, Ss) \<leftarrow> split_on (\<lambda>c. c = CHR '':'') r4;
       y \<leftarrow> year_field ys;
       m \<leftarrow> num_field 1 12 ms;
       H \<leftarrow> num_field 0 23 Hs;
       M \<leftarrow> num_field 0 59 Ms;
       S \<leftarrow> num_field 0 61 Ss;
       make_datetime y m d H M S
     }"

definition digit_char :: "nat \<Rightarrow> char" where
  "digit_char n = char_of (48 + n mod 10)"

definition pad2 :: "nat \<Rightarrow> string" where
  "pad2 n = [digit_char (n div 10), digit_char n]"

text \<open>The four digits that \<^verbatim>\<open>%Y\<close> of \<^verbatim>\<open>strptime\<close> asks for.\<close>

definition pad4 :: "nat \<Rightarrow> string" where
  "pad4 n = [digit_char (n div 1000), digit_char (n div 100), digit_char (n div 10), digit_char n]"

text \<open>A number in decimal, with no padding.\<close>

fun decimal :: "nat \<Rightarrow> string" where
  "decimal n = (if n < 10 then [digit_char n] else decimal (n div 10) @ [digit_char n])"

declare decimal.simps [simp del]

text \<open>
  \<^verbatim>\<open>t.strftime("%Y-%m-%d %H:%M:%S")\<close>. CPython hands the format to the \<^verbatim>\<open>strftime\<close> of the C
  library; with glibc (CPython 3.11 on Linux) \<^verbatim>\<open>%Y\<close> is the year in decimal with no padding,
  so a year below 1000 is written with fewer than four digits, and the other fields are
  padded with zeros to two digits.
\<close>

definition strftime :: "datetime \<Rightarrow> string" where
  "strftime t =
     decimal (year t) @ ''-'' @ pad2 (month t) @ ''-'' @ pad2 (day t) @ '' ''
       @ pad2 (hour t) @ '':'' @ pad2 (minute t) @ '':'' @ pad2 (second t)"

text \<open>The times that the constructor accepts.\<close>

definition is_datetime :: "datetime \<Rightarrow> bool" where
  "is_datetime t \<longleftrightarrow>
     make_datetime (year t) (month t) (day t) (hour t) (minute t) (second t) = Some t"

section \<open>The file processor\<close>

text \<open>
  One element of \<^verbatim>\<open>processed_data\<close>: the tuple that \<^verbatim>\<open>process_log_file\<close> appends for a
  line, field by field in the tuple's order. A field whose pattern finds nothing is
  \<^const>\<open>None\<close>; the time is the text that \<^verbatim>\<open>strftime\<close> returns.
\<close>

record log_row =
  title :: "string option"
  tags :: "string option"
  description :: "string option"
  system_time :: string
  computer_name :: "string option"
  user_id :: "string option"
  event_id :: "string option"
  provider_name :: "string option"
  raw :: string

text \<open>\<^verbatim>\<open>system_time.group(1).replace(" ", "").split('.')[0] + "Z"\<close>\<close>

definition truncated_time :: "string \<Rightarrow> string" where
  "truncated_time g = before_dot (remove_char CHR '' '' g) @ ''Z''"

text \<open>
  What the block under \<^verbatim>\<open>if system_time:\<close> leaves in \<^verbatim>\<open>system_time\<close>: the parsed time, or
  \<^const>\<open>None\<close> when the pattern found no \<^verbatim>\<open>SystemTime\<close> (the variable still holds the
  failed match) or \<^verbatim>\<open>strptime\<close> raised \<^verbatim>\<open>ValueError\<close> (the handler assigns \<^verbatim>\<open>None\<close>).
\<close>

definition line_time :: "string \<Rightarrow> datetime option" where
  "line_time line =
     (case re_search (lazy_until dq) (key ''SystemTime'' @ [dq]) line of
        None \<Rightarrow> None
      | Some g \<Rightarrow> strptime_log (truncated_time g))"

text \<open>The tuple appended for a line whose time is \<^verbatim>\<open>t\<close>.\<close>

definition line_row :: "string \<Rightarrow> datetime \<Rightarrow> log_row" where
  "line_row line t =
     \<lparr> title = map_option strip (re_search (lazy_until dq) (key ''title'' @ [dq]) line),
       tags = map_option (\<lambda>g. strip (remove_char dq g))
                (re_search (lazy_until CHR '']'') (key ''tags'' @ ''['') line),
       description = map_option strip (re_search escaped_until_quote (key ''description'' @ [dq]) line),
       system_time = strftime t,
       computer_name = map_option strip (re_search (lazy_until dq) (key ''Computer'' @ [dq]) line),
       user_id = map_option strip (re_search (lazy_until dq) (key ''UserID'' @ [dq]) line),
       event_id = map_option strip (re_search digits1 (key ''EventID'') line),
       provider_name = map_option strip (re_search (lazy_until dq) (key ''Provider_Name'' @ [dq]) line),
       raw = strip line \<rparr>"

text \<open>\<^verbatim>\<open>last_processed_time and system_time <= last_processed_time\<close>: the test that
  passes a line over as already processed.\<close>

definition already_processed :: "datetime option \<Rightarrow> datetime \<Rightarrow> bool" where
  "already_processed last_processed_time t =
     (case last_processed_time of None \<Rightarrow> False | Some w \<Rightarrow> t \<le> w)"

text \<open>\<^verbatim>\<open>if not latest_time or system_time > latest_time: latest_time = system_time\<close>\<close>

definition raise_latest :: "datetime option \<Rightarrow> datetime \<Rightarrow> datetime option" where
  "raise_latest latest_time t =
     (case latest_time of
        None \<Rightarrow> Some t
      | Some l \<Rightarrow> if l < t then Some t else Some l)"

text \<open>
  The body of the loop over the lines, on the pair \<^verbatim>\<open>(processed_data, latest_time)\<close>:
  \<^item> a line that is blank after \<^verbatim>\<open>strip\<close> is passed over;
  \<^item> with no time (\<^const>\<open>line_time\<close> is \<^const>\<open>None\<close>) the call \<^verbatim>\<open>system_time.strftime(...)\<close>
    in the appended tuple raises \<^verbatim>\<open>AttributeError\<close>, the handler of the line logs it, and
    nothing is appended;
  \<^item> a time at or before \<^verbatim>\<open>last_processed_time\<close> is passed over (\<^verbatim>\<open>continue\<close>);
  \<^item> otherwise \<^verbatim>\<open>latest_time\<close> is raised to the time when there is none yet or the time is
    later, and the tuple is appended.
\<close>

definition process_line ::
  "datetime option \<Rightarrow> string \<Rightarrow> log_row list \<times> datetime option \<Rightarrow> log_row list \<times> datetime option" where
  "process_line last_processed_time line acc =
     (case acc of (processed_data, latest_time) \<Rightarrow>
        if strip line = [] then (processed_data, latest_time)
        else
          (case line_time line of
             None \<Rightarrow> (processed_data, latest_time)
           | Some t \<Rightarrow>
               if already_processed last_processed_time t then (processed_data, latest_time)
               else (processed_data @ [line_row line t], raise_latest latest_time t)))"

fun process_lines ::
  "datetime option \<Rightarrow> string list \<Rightarrow> log_row list \<times> datetime option \<Rightarrow> log_row list \<times> datetime option" where
  "process_lines last_processed_time [] acc = acc"
| "process_lines last_processed_time (line # lines) acc =
     process_lines last_processed_time lines (process_line last_processed_time line acc)"

text \<open>
  The files of the log folder: a name is mapped to the lines that \<^verbatim>\<open>readlines()\<close> returns,
  or to \<^const>\<open>None\<close> when opening or reading the file raises. \<^verbatim>\<open>process_log_file\<close> catches
  that error, logs it and returns the empty list with the time it was given.
\<close>

type_synonym folder = "string \<rightharpoonup> string list"

definition process_log_file ::
  "folder \<Rightarrow> string \<Rightarrow> datetime option \<Rightarrow> log_row list \<times> datetime option" where
  "process_log_file folder file_path last_processed_time =
     (case folder file_path of
        None \<Rightarrow> ([], last_processed_time)
      | Some lines \<Rightarrow> process_lines last_processed_time lines ([], last_processed_time))"

text \<open>The lines of a file that come to be appended, given the time to filter by.\<close>

definition appended :: "datetime option \<Rightarrow> string \<Rightarrow> bool" where
  "appended w line =
     (case line_time line of None \<Rightarrow> False | Some t \<Rightarrow> \<not> already_processed w t)"

section \<open>The bookmark\<close>

text \<open>
  The exceptions that leave a function of the program: \<^verbatim>\<open>UnboundLocalError\<close> from the
  \<^verbatim>\<open>finally\<close> clause of a database function whose \<^verbatim>\<open>connect\<close> failed, and \<^verbatim>\<open>OSError\<close> and
  \<^verbatim>\<open>UnicodeDecodeError\<close> from opening and reading the bookmark file.
\<close>

datatype py_exception = UnboundLocalError | OSError | UnicodeDecodeError

text \<open>
  What \<^verbatim>\<open>open(bookmark_file, "r")\<close> and \<^verbatim>\<open>file.read()\<close> do with a bookmark that exists: they
  give its text, or one of them raises (\<^verbatim>\<open>OSError\<close> when the path is a directory or may
  not be read, \<^verbatim>\<open>UnicodeDecodeError\<close> when the bytes are no text in the encoding of the
  locale).
\<close>

datatype read_outcome = Read_Ok | Read_Error py_exception

text \<open>
  The bookmark file is \<^const>\<open>None\<close> when \<^verbatim>\<open>os.path.exists\<close> is false and its text otherwise.
  \<^verbatim>\<open>read_last_processed_time\<close> returns \<^verbatim>\<open>None\<close> for a missing file, for a text that is
  empty after \<^verbatim>\<open>strip\<close>, and for a text \<^verbatim>\<open>strptime\<close> refuses (the \<^verbatim>\<open>ValueError\<close> is caught
  and logged). \<^verbatim>\<open>open\<close> and \<^verbatim>\<open>read\<close> stand before the \<^verbatim>\<open>try\<close>: what they raise leaves the
  function.
\<close>

definition read_last_processed_time ::
  "read_outcome \<Rightarrow> string option \<Rightarrow> py_exception + datetime option" where
  "read_last_processed_time outcome bookmark =
     (case bookmark of
        None \<Rightarrow> Inr None
      | Some text \<Rightarrow>
          (case outcome of
             Read_Error e \<Rightarrow> Inl e
           | Read_Ok \<Rightarrow>
               (let content = strip text
                in if content \<noteq> [] then Inr (strptime_bookmark content) else Inr None)))"

text \<open>\<^verbatim>\<open>update_last_processed_time\<close> is only ever called with a \<^verbatim>\<open>datetime\<close>: it overwrites
  the file with the formatted time (the write is taken to succeed). The result is the
  file after the call.\<close>

definition update_last_processed_time :: "datetime \<Rightarrow> string option" where
  "update_last_processed_time t = Some (strftime t)"

section \<open>The sink\<close>

text \<open>
  A row of the table \<^verbatim>\<open>sigma_alerts\<close>: the columns of a \<^typ>\<open>log_row\<close> and the column
  \<^verbatim>\<open>dbscan_cluster\<close>, an \<^verbatim>\<open>INT\<close> that may be \<^verbatim>\<open>NULL\<close>. The table is the list of its
  rows in the order they were inserted.
\<close>

record db_row = log_row +
  dbscan_cluster :: "int option"

definition BATCH_SIZE :: nat where
  "BATCH_SIZE = 1000"

text \<open>
  The outcome that the database gives a call. A failed \<^verbatim>\<open>connect\<close> raises the connector's
  \<^verbatim>\<open>Error\<close> before \<^verbatim>\<open>connection\<close> is bound: the handler logs it, and the \<^verbatim>\<open>finally\<close> clause,
  which reads \<^verbatim>\<open>connection\<close>, raises \<^verbatim>\<open>UnboundLocalError\<close>, which leaves the function.
  An \<^verbatim>\<open>Error\<close> raised by a statement on an open connection is logged and the function
  returns.
\<close>

datatype select_outcome = Select_Ok | Select_Connect_Error | Select_Query_Error

text \<open>\<^verbatim>\<open>Insert_Statement_Error k\<close>: the \<^verbatim>\<open>executemany\<close> or the \<^verbatim>\<open>commit\<close> of chunk \<^verbatim>\<open>k\<close>
  (counted from 0) raises; a \<^verbatim>\<open>k\<close> beyond the last chunk never comes to pass.\<close>

datatype insert_outcome = Insert_Ok | Insert_Connect_Error | Insert_Statement_Error nat

text \<open>\<^verbatim>\<open>SELECT MAX(dbscan_cluster) FROM sigma_alerts\<close>: \<^verbatim>\<open>NULL\<close> when no row has a value.\<close>

definition sql_max_cluster :: "db_row list \<Rightarrow> int option" where
  "sql_max_cluster table =
     (case List.map_filter dbscan_cluster table of
        [] \<Rightarrow> None
      | c # cs \<Rightarrow> Some (fold max cs c))"

definition get_max_cluster_value :: "select_outcome \<Rightarrow> db_row list \<Rightarrow> py_exception + int" where
  "get_max_cluster_value outcome table =
     (case outcome of
        Select_Connect_Error \<Rightarrow> Inl UnboundLocalError
      | Select_Query_Error \<Rightarrow> Inr 0
      | Select_Ok \<Rightarrow>
          (case sql_max_cluster table of
             None \<Rightarrow> Inr 0
           | Some m \<Rightarrow> Inr m))"

text \<open>The tuple \<^verbatim>\<open>(row[0], ..., row[7], cluster_value, row[8])\<close> of \<^verbatim>\<open>data_with_cluster\<close>.\<close>

definition with_cluster :: "int \<Rightarrow> log_row \<Rightarrow> db_row" where
  "with_cluster cluster_value row =
     \<lparr> title = title row, tags = tags row, description = description row,
       system_time = system_time row, computer_name = computer_name row,
       user_id = user_id row, event_id = event_id row, provider_name = provider_name row,
       raw = raw row, dbscan_cluster = Some cluster_value \<rparr>"

text \<open>\<^verbatim>\<open>range(0, n, BATCH_SIZE)\<close>\<close>

definition batch_offsets :: "nat \<Rightarrow> nat list" where
  "batch_offsets n = map (\<lambda>j. j * BATCH_SIZE) [0..<(n + BATCH_SIZE - 1) div BATCH_SIZE]"

text \<open>
  The loop over the chunks: chunk \<^verbatim>\<open>data[i:i + BATCH_SIZE]\<close> is inserted and committed, one
  chunk after the other. \<^verbatim>\<open>failing\<close> counts the chunks left before the one whose statement
  raises; the chunks committed before it stay in the table.
\<close>

fun insert_batches ::
  "nat option \<Rightarrow> log_row list \<Rightarrow> int \<Rightarrow> nat list \<Rightarrow> db_row list \<Rightarrow> db_row list" where
  "insert_batches failing data cluster_value [] table = table"
| "insert_batches failing data cluster_value (i # offsets) table =
     (if failing = Some 0 then table
      else insert_batches (map_option (\<lambda>k. k - 1) failing) data cluster_value offsets
             (table @ map (with_cluster cluster_value) (take BATCH_SIZE (drop i data))))"

text \<open>\<^verbatim>\<open>insert_data_to_sql(data, 'sigma_alerts', cluster_value)\<close>: the table after the call,
  or the exception that leaves it.\<close>

definition insert_data_to_sql ::
  "insert_outcome \<Rightarrow> log_row list \<Rightarrow> int \<Rightarrow> db_row list \<Rightarrow> py_exception + db_row list" where
  "insert_data_to_sql outcome data cluster_value table =
     (if data \<noteq> [] then
        (case outcome of
           Insert_Connect_Error \<Rightarrow> Inl UnboundLocalError
         | Insert_Statement_Error k \<Rightarrow>
             Inr (insert_batches (Some k) data cluster_value (batch_offsets (length data)) table)
         | Insert_Ok \<Rightarrow>
             Inr (insert_batches None data cluster_value (batch_offsets (length data)) table))
      else Inr table)"

section \<open>The coordinator\<close>

record outcomes =
  on_select :: select_outcome
  on_insert :: insert_outcome

text \<open>
  \<^verbatim>\<open>process_and_insert_log\<close>: the value returned (or the exception raised) and the table
  afterwards. The cluster value is asked for, and the rows are inserted, only when the
  file gave rows.
\<close>

definition process_and_insert_log ::
  "folder \<Rightarrow> outcomes \<Rightarrow> string \<Rightarrow> datetime option \<Rightarrow> db_row list
     \<Rightarrow> (py_exception + datetime option) \<times> db_row list" where
  "process_and_insert_log folder db file_name last_processed_time table =
     (case process_log_file folder file_name last_processed_time of (data, latest_time) \<Rightarrow>
        if data \<noteq> [] then
          (case get_max_cluster_value (on_select db) table of
             Inl e \<Rightarrow> (Inl e, table)
           | Inr m \<Rightarrow>
               (case insert_data_to_sql (on_insert db) data (m + 1) table of
                  Inl e \<Rightarrow> (Inl e, table)
                | Inr table' \<Rightarrow> (Inr latest_time, table')))
        else (Inr latest_time, table))"

text \<open>
  A worker of the pool, between its calls to the database: it has not asked for the
  maximum yet, or it holds the cluster value it computed from the maximum and has not
  inserted yet, or it is done and its future holds a value or an exception.
\<close>

datatype worker = Waiting | Selected int | Finished "py_exception + datetime option"

text \<open>
  One step of a worker that runs \<^verbatim>\<open>process_and_insert_log\<close>, with the table as the step finds
  it and as it leaves it. The first step reads the file and, when it gave rows, asks for
  the maximum; the second inserts the rows under the cluster value of the first. Other
  workers may change the table between the two. The chunks of one insert are taken as
  one step: all of them carry the worker's cluster value, so a maximum read between two
  chunks is the maximum read after the last.
\<close>

definition worker_step ::
  "folder \<Rightarrow> outcomes \<Rightarrow> string \<Rightarrow> datetime option \<Rightarrow> worker \<Rightarrow> db_row list
     \<Rightarrow> worker \<times> db_row list" where
  "worker_step folder db file_name last_processed_time st table =
     (case process_log_file folder file_name last_processed_time of (data, latest_time) \<Rightarrow>
        (case st of
           Waiting \<Rightarrow>
             if data \<noteq> [] then
               (case get_max_cluster_value (on_select db) table of
                  Inl e \<Rightarrow> (Finished (Inl e), table)
                | Inr m \<Rightarrow> (Selected (m + 1), table))
             else (Finished (Inr latest_time), table)
         | Selected cluster_value \<Rightarrow>
             (case insert_data_to_sql (on_insert db) data cluster_value table of
                Inl e \<Rightarrow> (Finished (Inl e), table)
              | Inr table' \<Rightarrow> (Finished (Inr latest_time), table'))
         | Finished r \<Rightarrow> (Finished r, table)))"

text \<open>A worker run to its end with no other worker in between: from the start this is
  \<^const>\<open>process_and_insert_log\<close>.\<close>

definition complete ::
  "folder \<Rightarrow> outcomes \<Rightarrow> string \<Rightarrow> datetime option \<Rightarrow> worker \<Rightarrow> db_row list
     \<Rightarrow> (py_exception + datetime option) \<times> db_row list" where
  "complete folder db file_name last_processed_time st table =
     (case st of
        Waiting \<Rightarrow> process_and_insert_log folder db file_name last_processed_time table
      | Selected cluster_value \<Rightarrow>
          (case process_log_file folder file_name last_processed_time of (data, latest_time) \<Rightarrow>
             (case insert_data_to_sql (on_insert db) data cluster_value table of
                Inl e \<Rightarrow> (Inl e, table)
              | Inr table' \<Rightarrow> (Inr latest_time, table')))
      | Finished r \<Rightarrow> (r, table))"

text \<open>
  The pool: the files submitted, each with its worker. Every worker is given the time
  that was current when the files were submitted. \<^verbatim>\<open>ThreadPoolExecutor\<close> runs up to
  \<^verbatim>\<open>os.cpu_count()\<close> workers at once, and nothing orders the database calls of one worker
  against those of another. A schedule is a list of file names: each entry lets the
  worker of that file take its next step (an entry for no worker, or for a worker that is
  done, does nothing).
\<close>

type_synonym pool = "(string \<times> worker) list"

fun step_pool ::
  "folder \<Rightarrow> (string \<Rightarrow> outcomes) \<Rightarrow> datetime option \<Rightarrow> string \<Rightarrow> pool \<Rightarrow> db_row list
     \<Rightarrow> pool \<times> db_row list" where
  "step_pool folder db submitted f [] table = ([], table)"
| "step_pool folder db submitted f ((file_name, st) # ws) table =
     (if f = file_name then
        (case worker_step folder (db file_name) file_name submitted st table of
           (st', table') \<Rightarrow> ((file_name, st') # ws, table'))
      else
        (case step_pool folder db submitted f ws table of
           (ws', table') \<Rightarrow> ((file_name, st) # ws', table')))"

fun run_schedule ::
  "folder \<Rightarrow> (string \<Rightarrow> outcomes) \<Rightarrow> datetime option \<Rightarrow> string list \<Rightarrow> pool \<Rightarrow> db_row list
     \<Rightarrow> pool \<times> db_row list" where
  "run_schedule folder db submitted [] ws table = (ws, table)"
| "run_schedule folder db submitted (f # schedule) ws table =
     (case step_pool folder db submitted f ws table of
        (ws', table') \<Rightarrow> run_schedule folder db submitted schedule ws' table')"

text \<open>Leaving the \<^verbatim>\<open>with\<close> block waits for every worker: those the schedule has not brought
  to their end are run to it, one after the other.\<close>

fun complete_all ::
  "folder \<Rightarrow> (string \<Rightarrow> outcomes) \<Rightarrow> datetime option \<Rightarrow> pool \<Rightarrow> db_row list
     \<Rightarrow> (string \<times> (py_exception + datetime option)) list \<times> db_row list" where
  "complete_all folder db submitted [] table = ([], table)"
| "complete_all folder db submitted ((file_name, st) # ws) table =
     (case complete folder (db file_name) file_name submitted st table of
        (r, table') \<Rightarrow>
          (case complete_all folder db submitted ws table' of
             (rs, table'') \<Rightarrow> ((file_name, r) # rs, table'')))"

text \<open>
  The pool run under a schedule: the files with what their futures hold, and the table
  afterwards. With the empty schedule the workers run one after the other in the order
  of submission, which is what a pool of one worker does. The futures are listed in
  the order of submission; \<^verbatim>\<open>as_completed\<close> hands them over in the order they finish, on
  which the two loops over them do not depend (\<open>collect_first_permuted\<close> and
  \<open>collect_poll_permuted\<close> below).
\<close>

definition run_workers ::
  "folder \<Rightarrow> (string \<Rightarrow> outcomes) \<Rightarrow> datetime option \<Rightarrow> string list \<Rightarrow> string list \<Rightarrow> db_row list
     \<Rightarrow> (string \<times> (py_exception + datetime option)) list \<times> db_row list" where
  "run_workers folder db submitted schedule file_names table =
     (case run_schedule folder db submitted schedule (map (\<lambda>f. (f, Waiting)) file_names) table of
        (ws, table') \<Rightarrow> complete_all folder db submitted ws table')"

text \<open>\<^verbatim>\<open>if result and (last_processed_time is None or result > last_processed_time):
  last_processed_time = result\<close>\<close>

definition take_result :: "datetime option \<Rightarrow> datetime option \<Rightarrow> datetime option" where
  "take_result result current =
     (case result of
        None \<Rightarrow> current
      | Some r \<Rightarrow>
          (case current of
             None \<Rightarrow> Some r
           | Some l \<Rightarrow> if l < r then Some r else Some l))"

text \<open>
  What the coordinator holds and what outlives it: the variables \<^verbatim>\<open>last_processed_time\<close>
  and \<^verbatim>\<open>processed_files\<close> of \<^verbatim>\<open>monitor_folder\<close>, the bookmark file, and the table.
\<close>

record monitor_state =
  last_processed_time :: "datetime option"
  processed_files :: "string set"
  bookmark_file :: "string option"
  sigma_alerts :: "db_row list"

text \<open>
  What the surroundings give one cycle: the names \<^verbatim>\<open>os.listdir\<close> returns (in the order
  in which the set of new files is walked), the files, the outcome the database gives
  the calls made for each file, and the schedule of the pool.
\<close>

record tick =
  listing :: "string list"
  files :: folder
  database :: "string \<Rightarrow> outcomes"
  schedule :: "string list"

text \<open>The loop over the completed futures of the first run: a future that raises is
  logged and passed over.\<close>

fun collect_first ::
  "(string \<times> (py_exception + datetime option)) list \<Rightarrow> datetime option \<Rightarrow> datetime option" where
  "collect_first [] current = current"
| "collect_first ((file_name, r) # rs) current =
     collect_first rs
       (case r of Inl e \<Rightarrow> current | Inr result \<Rightarrow> take_result result current)"

text \<open>The loop over the completed futures of a polling cycle: a file is added to
  \<^verbatim>\<open>processed_files\<close> when its future returned, and passed over when it raised.\<close>

fun collect_poll ::
  "(string \<times> (py_exception + datetime option)) list \<Rightarrow> datetime option \<times> string set
     \<Rightarrow> datetime option \<times> string set" where
  "collect_poll [] acc = acc"
| "collect_poll ((file_name, r) # rs) acc =
     collect_poll rs
       (case acc of (current, seen) \<Rightarrow>
          (case r of
             Inl e \<Rightarrow> (current, seen)
           | Inr result \<Rightarrow> (take_result result current, insert file_name seen)))"

text \<open>
  \<^verbatim>\<open>monitor_folder\<close> from the time it has read up to its loop: when there is none, every
  file of the sorted listing is processed with no time to filter by, and the latest time
  returned, if any, is written to the bookmark. No file is added to \<^verbatim>\<open>processed_files\<close>.
\<close>

definition monitor_begin ::
  "tick \<Rightarrow> datetime option \<Rightarrow> string option \<Rightarrow> db_row list \<Rightarrow> monitor_state" where
  "monitor_begin tk loaded bookmark table =
     (case loaded of
        None \<Rightarrow>
          (case run_workers (files tk) (database tk) None (schedule tk) (sort (listing tk)) table of
             (results, table') \<Rightarrow>
               (let latest = collect_first results None
                in \<lparr> last_processed_time = latest,
                     processed_files = {},
                     bookmark_file =
                       (case latest of None \<Rightarrow> bookmark | Some t \<Rightarrow> update_last_processed_time t),
                     sigma_alerts = table' \<rparr>))
      | Some t \<Rightarrow>
          \<lparr> last_processed_time = Some t, processed_files = {},
            bookmark_file = bookmark, sigma_alerts = table \<rparr>)"

text \<open>
  \<^verbatim>\<open>monitor_folder\<close> up to its loop. The bookmark is read first, in no \<^verbatim>\<open>try\<close> block: an
  exception of \<^verbatim>\<open>read_last_processed_time\<close> leaves \<^verbatim>\<open>monitor_folder\<close>, and with it the
  program.
\<close>

definition monitor_start ::
  "tick \<Rightarrow> read_outcome \<Rightarrow> string option \<Rightarrow> db_row list \<Rightarrow> py_exception + monitor_state" where
  "monitor_start tk outcome bookmark table =
     (case read_last_processed_time outcome bookmark of
        Inl e \<Rightarrow> Inl e
      | Inr loaded \<Rightarrow> Inr (monitor_begin tk loaded bookmark table))"

text \<open>\<^verbatim>\<open>new_files = current_files - processed_files\<close>\<close>

definition new_files :: "string list \<Rightarrow> string set \<Rightarrow> string list" where
  "new_files current seen = filter (\<lambda>f. f \<notin> seen) (remdups current)"

text \<open>One pass of the loop of \<^verbatim>\<open>monitor_folder\<close>, up to its \<^verbatim>\<open>sleep\<close>.\<close>

definition monitor_cycle :: "tick \<Rightarrow> monitor_state \<Rightarrow> monitor_state" where
  "monitor_cycle tk s =
     (case run_workers (files tk) (database tk) (last_processed_time s) (schedule tk)
             (new_files (listing tk) (processed_files s)) (sigma_alerts s) of
        (results, table') \<Rightarrow>
          (case collect_poll results (last_processed_time s, processed_files s) of
             (latest, seen) \<Rightarrow>
               \<lparr> last_processed_time = latest,
                 processed_files = seen,
                 bookmark_file =
                   (case latest of None \<Rightarrow> bookmark_file s | Some t \<Rightarrow> update_last_processed_time t),
                 sigma_alerts = table' \<rparr>))"

text \<open>\<^verbatim>\<open>monitor_folder\<close> interrupted after the cycles of \<^verbatim>\<open>tks\<close>: the start, then one pass
  of the loop for each.\<close>

definition monitor_folder ::
  "tick \<Rightarrow> tick list \<Rightarrow> read_outcome \<Rightarrow> string option \<Rightarrow> db_row list
     \<Rightarrow> py_exception + monitor_state" where
  "monitor_folder tk0 tks outcome bookmark table =
     (case monitor_start tk0 outcome bookmark table of
        Inl e \<Rightarrow> Inl e
      | Inr s \<Rightarrow> Inr (foldl (\<lambda>s tk. monitor_cycle tk s) s tks))"

text \<open>
  What the future of a file holds, whatever the table: the exception of a failed
  \<^verbatim>\<open>connect\<close> when the file gave rows, and the latest time of the file otherwise.
\<close>

definition returned ::
  "folder \<Rightarrow> outcomes \<Rightarrow> string \<Rightarrow> datetime option \<Rightarrow> py_exception + datetime option" where
  "returned folder db file_name w =
     (case process_log_file folder file_name w of (data, latest_time) \<Rightarrow>
        if data \<noteq> []
           \<and> (on_select db = Select_Connect_Error \<or> on_insert db = Insert_Connect_Error)
        then Inl UnboundLocalError
        else Inr latest_time)"

text \<open>
  What a worker in a given state needs for its future to hold what \<^const>\<open>returned\<close> says: a
  worker that holds a cluster value has rows and a \<^verbatim>\<open>SELECT\<close> whose \<^verbatim>\<open>connect\<close> worked.
\<close>

definition agrees :: "folder \<Rightarrow> outcomes \<Rightarrow> string \<Rightarrow> datetime option \<Rightarrow> worker \<Rightarrow> bool" where
  "agrees folder db file_name w st =
     (case st of
        Waiting \<Rightarrow> True
      | Selected c \<Rightarrow>
          fst (process_log_file folder file_name w) \<noteq> [] \<and> on_select db \<noteq> Select_Connect_Error
      | Finished r \<Rightarrow> r = returned folder db file_name w)"




definition fresh :: "int \<Rightarrow> db_row list \<Rightarrow> bool" where
  "fresh m rows \<longleftrightarrow> (\<forall>r \<in> set rows. \<exists>c. dbscan_cluster r = Some c \<and> m < c)"


section \<open>Sample data\<close>

text \<open>Six log lines with the times 10:20:42 to 10:20:47 of one day, a line with no
  \<^verbatim>\<open>SystemTime\<close>, a line whose \<^verbatim>\<open>SystemTime\<close> is no time, and a folder of three files
  with two of the six lines each.\<close>

definition sample_1 :: string where
  \<open>sample_1 = ''{"title":"A","SystemTime":"2024-03-05T10:20:42.5Z"}''\<close>

definition sample_2 :: string where
  \<open>sample_2 = ''{"title":"B","SystemTime":"2024-03-05T10:20:43.5Z"}''\<close>

definition sample_3 :: string where
  \<open>sample_3 = ''{"title":"C","SystemTime":"2024-03-05T10:20:44.5Z"}''\<close>

definition sample_4 :: string where
  \<open>sample_4 = ''{"title":"D","SystemTime":"2024-03-05T10:20:45.5Z"}''\<close>

definition sample_5 :: string where
  \<open>sample_5 = ''{"title":"E","SystemTime":"2024-03-05T10:20:46.5Z"}''\<close>

definition sample_6 :: string where
  \<open>sample_6 = ''{"title":"F","SystemTime":"2024-03-05T10:20:47.5Z"}''\<close>

definition sample_no_time :: string where
  \<open>sample_no_time = ''{"title":"G","EventID":4624}''\<close>

definition sample_bad_time :: string where
  \<open>sample_bad_time = ''{"title":"H","SystemTime":"yesterday"}''\<close>

text \<open>A line as it stands in a file: indented by two blanks and ended by a line feed.\<close>

definition sample_indented :: string where
  "sample_indented = ''  '' @ sample_1 @ [newline]"

definition sample_folder :: folder where
  "sample_folder =
     [''a.log'' \<mapsto> [sample_1, sample_2],
      ''b.log'' \<mapsto> [sample_3, sample_4],
      ''c.log'' \<mapsto> [sample_5, sample_6]]"

definition all_ok :: "string \<Rightarrow> outcomes" where
  "all_ok f = \<lparr> on_select = Select_Ok, on_insert = Insert_Ok \<rparr>"

text \<open>A coordinator that holds the time of the first sample line, with the bookmark
  that says so and an empty table.\<close>

definition sample_state :: monitor_state where
  "sample_state =
     \<lparr> last_processed_time = Some (Datetime 2024 3 5 10 20 42), processed_files = {},
       bookmark_file = Some ''2024-03-05 10:20:42'', sigma_alerts = [] \<rparr>"

text \<open>Cycles over the sample folder: one file whose insert fails at its first chunk, the
  same file with a database that works, a file that is listed and cannot be read, and
  all three files. Their workers run one after the other.\<close>

definition insert_fails :: "string \<Rightarrow> outcomes" where
  "insert_fails f = \<lparr> on_select = Select_Ok, on_insert = Insert_Statement_Error 0 \<rparr>"

definition tick_insert_fails :: tick where
  "tick_insert_fails =
     \<lparr> listing = [''a.log''], files = sample_folder, database = insert_fails, schedule = [] \<rparr>"

definition tick_insert_ok :: tick where
  "tick_insert_ok =
     \<lparr> listing = [''a.log''], files = sample_folder, database = all_ok, schedule = [] \<rparr>"

definition tick_unreadable :: tick where
  "tick_unreadable =
     \<lparr> listing = [''d.log''], files = sample_folder, database = all_ok, schedule = [] \<rparr>"





section \<open>Facts about timestamps\<close>

lemma less_eq_Datetime [simp]:
  "Datetime y m d H M S \<le> Datetime y' m' d' H' M' S'
     \<longleftrightarrow> (y, m, d, H, M, S) \<le> (y', m', d', H', M', S')"
  by (simp add: less_eq_datetime_def fields_of_def)

lemma less_Datetime [simp]:
  "Datetime y m d H M S < Datetime y' m' d' H' M' S'
     \<longleftrightarrow> (y, m, d, H, M, S) < (y', m', d', H', M', S')"
  by (simp add: less_datetime_def fields_of_def)

section \<open>Facts about the sink\<close>

lemma batch_size_pos: "0 < BATCH_SIZE"
  by (simp add: BATCH_SIZE_def)

lemma ceil_cover:
  assumes "0 < b"
  shows "(n::nat) \<le> ((n + b - 1) div b) * b"
proof -
  have "(n + b - 1) div b * b = (n + b - 1) - (n + b - 1) mod b"
    by (simp add: minus_mod_eq_div_mult)
  moreover have "(n + b - 1) mod b < b"
    using assms by simp
  ultimately show ?thesis
    using assms by linarith
qed

lemma concat_batches:
  "concat (map (\<lambda>i. take b (drop i data)) (map (\<lambda>j. j * b) [0..<k])) = take (k * b) data"
proof (induction k)
  case 0
  then show ?case by simp
next
  case (Suc k)
  have "take (k * b) data @ take b (drop (k * b) data) = take (k * b + b) data"
    by (simp add: take_add)
  with Suc show ?case by (simp add: add.commute)
qed

lemma batch_offsets_cover:
  "concat (map (\<lambda>i. take BATCH_SIZE (drop i data)) (batch_offsets (length data))) = data"
proof -
  have "length data \<le> ((length data + BATCH_SIZE - 1) div BATCH_SIZE) * BATCH_SIZE"
    by (rule ceil_cover [OF batch_size_pos])
  then show ?thesis
    unfolding batch_offsets_def by (simp only: concat_batches take_all)
qed

lemma insert_batches_None:
  "insert_batches None data c offs table =
     table @ map (with_cluster c) (concat (map (\<lambda>i. take BATCH_SIZE (drop i data)) offs))"
  by (induction offs arbitrary: table) simp_all

lemma insert_data_to_sql_ok:
  "insert_data_to_sql Insert_Ok data c table = Inr (table @ map (with_cluster c) data)"
  by (simp add: insert_data_to_sql_def insert_batches_None batch_offsets_cover)

lemma dbscan_cluster_with_cluster [simp]: "dbscan_cluster (with_cluster c r) = Some c"
  by (simp add: with_cluster_def)

section \<open>Facts about the sample data\<close>

lemma sample_1_time: "line_time sample_1 = Some (Datetime 2024 3 5 10 20 42)"
  by code_simp

lemma sample_2_time: "line_time sample_2 = Some (Datetime 2024 3 5 10 20 43)"
  by code_simp





lemma sample_no_time_time: "line_time sample_no_time = None"
  by code_simp

lemma sample_bad_time_time: "line_time sample_bad_time = None"
  by code_simp

lemma sample_not_blank:
  "strip sample_1 \<noteq> []" "strip sample_2 \<noteq> []" "strip sample_3 \<noteq> []"
  "strip sample_4 \<noteq> []" "strip sample_5 \<noteq> []" "strip sample_6 \<noteq> []"
  by code_simp+

lemma sample_a_first_run:
  "process_log_file sample_folder ''a.log'' None =
     ([line_row sample_1 (Datetime 2024 3 5 10 20 42), line_row sample_2 (Datetime 2024 3 5 10 20 43)],
      Some (Datetime 2024 3 5 10 20 43))"
  by (simp add: process_log_file_def sample_folder_def process_line_def already_processed_def
      raise_latest_def sample_1_time sample_2_time sample_not_blank)

section \<open>Cluster values\<close>

text \<open>
  Claim C10. \<^verbatim>\<open>get_max_cluster_value\<close> returns 0 when no row of the table has a cluster
  value, and also when the query raises the connector's error on an open connection. In
  both cases \<^verbatim>\<open>process_and_insert_log\<close> inserts the rows of the file with the cluster
  value 1, whatever the table already holds: after a failed query a cluster value that
  rows of the table carry is given to a new batch.
\<close>

theorem get_max_cluster_value_zero:
  "(sql_max_cluster table = None \<longrightarrow> get_max_cluster_value Select_Ok table = Inr 0)
   \<and> get_max_cluster_value Select_Query_Error table = Inr 0
   \<and> (fst (process_log_file folder f w) \<noteq> [] \<and> on_insert db = Insert_Ok
        \<and> (on_select db = Select_Query_Error
            \<or> on_select db = Select_Ok \<and> sql_max_cluster table = None)
      \<longrightarrow> process_and_insert_log folder db f w table
            = (Inr (snd (process_log_file folder f w)),
               table @ map (with_cluster 1) (fst (process_log_file folder f w))))"
  by (auto simp: get_max_cluster_value_def process_and_insert_log_def insert_data_to_sql_ok
      split: prod.splits)

theorem get_max_cluster_value_zero_witness:
  "sql_max_cluster [with_cluster 1 (line_row sample_3 (Datetime 2024 3 5 10 20 44))] = Some 1
   \<and> get_max_cluster_value Select_Query_Error
        [with_cluster 1 (line_row sample_3 (Datetime 2024 3 5 10 20 44))] = Inr 0
   \<and> map dbscan_cluster
        (snd (process_and_insert_log sample_folder
                \<lparr> on_select = Select_Query_Error, on_insert = Insert_Ok \<rparr> ''a.log'' None
                [with_cluster 1 (line_row sample_3 (Datetime 2024 3 5 10 20 44))]))
      = [Some 1, Some 1, Some 1]"
  using get_max_cluster_value_zero
    [of "[with_cluster 1 (line_row sample_3 (Datetime 2024 3 5 10 20 44))]" sample_folder "''a.log''" None
        "\<lparr> on_select = Select_Query_Error, on_insert = Insert_Ok \<rparr>"]
  by (simp add: sample_a_first_run sql_max_cluster_def List.map_filter_simps)

section \<open>Facts about the file processor\<close>

lemma strip_Nil_all_space:
  assumes "strip s = []"
  shows "\<forall>c \<in> set s. isspace c"
proof -
  from assms have tail: "dropWhile isspace (rev (dropWhile isspace s)) = []"
    by (simp add: strip_def)
  then have "\<forall>c \<in> set (dropWhile isspace s). isspace c"
    by (simp add: dropWhile_eq_Nil_conv)
  then have "dropWhile isspace s = []"
    using hd_dropWhile [of isspace s] hd_in_set [of "dropWhile isspace s"] by blast
  then show ?thesis
    by (simp add: dropWhile_eq_Nil_conv)
qed

lemma re_search_found:
  assumes "re_search body p s = Some g" and "p \<noteq> []"
  shows "set p \<subseteq> set s"
  using assms
proof (induction s)
  case Nil
  then show ?case by simp
next
  case (Cons c cs)
  show ?case
  proof (cases "prefix p (c # cs)")
    case True
    then show ?thesis
      by (rule set_mono_prefix)
  next
    case False
    with Cons show ?thesis
      by auto
  qed
qed

lemma line_time_not_blank:
  assumes "line_time line = Some t"
  shows "strip line \<noteq> []"
proof
  assume "strip line = []"
  then have space: "\<forall>c \<in> set line. isspace c"
    by (rule strip_Nil_all_space)
  from assms obtain g where "re_search (lazy_until dq) (key ''SystemTime'' @ [dq]) line = Some g"
    by (auto simp: line_time_def split: option.splits)
  then have "set (key ''SystemTime'' @ [dq]) \<subseteq> set line"
    by (rule re_search_found) simp
  then have "dq \<in> set line"
    by auto
  with space have "isspace dq"
    by blast
  then show False
    by (simp add: isspace_def dq_def)
qed

lemma process_line_timed:
  assumes "line_time line = Some t"
  shows "process_line w line (pd, l) =
           (if already_processed w t then (pd, l) else (pd @ [line_row line t], raise_latest l t))"
  using assms line_time_not_blank [OF assms] by (simp add: process_line_def)

lemma process_line_untimed:
  assumes "line_time line = None"
  shows "process_line w line acc = acc"
  using assms by (cases acc) (simp add: process_line_def)

lemma process_line_appended:
  "process_line w line (pd, l) =
     (if appended w line
      then (pd @ [line_row line (the (line_time line))], raise_latest l (the (line_time line)))
      else (pd, l))"
proof (cases "line_time line")
  case None
  then show ?thesis
    by (simp add: process_line_untimed appended_def)
next
  case (Some t)
  then show ?thesis
    by (simp add: process_line_timed appended_def)
qed

lemma process_lines_appended:
  "process_lines w lines (pd, l) =
     (pd @ map (\<lambda>line. line_row line (the (line_time line))) (filter (appended w) lines),
      foldl raise_latest l (map (\<lambda>line. the (line_time line)) (filter (appended w) lines)))"
  by (induction lines arbitrary: pd l) (simp_all add: process_line_appended)

lemma raise_latest_max: "raise_latest l t = max l (Some t)"
proof (cases l)
  case None
  then show ?thesis by (simp add: raise_latest_def max_def)
next
  case (Some c)
  show ?thesis
  proof (cases "c < t")
    case True
    with Some show ?thesis by (simp add: raise_latest_def max_def less_imp_le)
  next
    case False
    then have "t \<le> c" by (simp add: not_less)
    then have "max (Some c) (Some t) = Some c"
      by (simp add: max_absorb1)
    with Some False show ?thesis by (simp add: raise_latest_def)
  qed
qed

lemma foldl_raise_latest_ge: "l \<le> foldl raise_latest l ts"
proof (induction ts arbitrary: l)
  case Nil
  then show ?case by simp
next
  case (Cons t ts)
  have "l \<le> raise_latest l t"
    by (simp add: raise_latest_max)
  also have "\<dots> \<le> foldl raise_latest (raise_latest l t) ts"
    by (rule Cons.IH)
  finally show ?case by simp
qed

lemma foldl_raise_latest_upper: "t \<in> set ts \<Longrightarrow> Some t \<le> foldl raise_latest l ts"
proof (induction ts arbitrary: l)
  case Nil
  then show ?case by simp
next
  case (Cons u ts)
  show ?case
  proof (cases "t = u")
    case True
    have "Some t \<le> raise_latest l u"
      using True by (simp add: raise_latest_max)
    also have "\<dots> \<le> foldl raise_latest (raise_latest l u) ts"
      by (rule foldl_raise_latest_ge)
    finally show ?thesis by simp
  next
    case False
    with Cons.prems have "t \<in> set ts" by simp
    then show ?thesis
      using Cons.IH by simp
  qed
qed

lemma foldl_raise_latest_mem:
  "foldl raise_latest l ts = l \<or> (\<exists>t \<in> set ts. foldl raise_latest l ts = Some t)"
proof (induction ts arbitrary: l)
  case Nil
  then show ?case by simp
next
  case (Cons u ts)
  have step: "raise_latest l u = l \<or> raise_latest l u = Some u"
    by (cases l) (simp_all add: raise_latest_def)
  from Cons.IH [of "raise_latest l u"]
  consider "foldl raise_latest (raise_latest l u) ts = raise_latest l u"
    | t where "t \<in> set ts" "foldl raise_latest (raise_latest l u) ts = Some t"
    by blast
  then show ?case
  proof cases
    case 1
    with step show ?thesis by fastforce
  next
    case 2
    then show ?thesis by fastforce
  qed
qed

lemma process_log_file_appended:
  assumes "folder f = Some lines"
  shows "process_log_file folder f w =
     (map (\<lambda>line. line_row line (the (line_time line))) (filter (appended w) lines),
      foldl raise_latest w (map (\<lambda>line. the (line_time line)) (filter (appended w) lines)))"
  using assms by (simp add: process_log_file_def process_lines_appended)

lemma appended_iff:
  assumes "line_time line = Some t"
  shows "appended w line \<longleftrightarrow> w = None \<or> (\<exists>b. w = Some b \<and> b < t)"
  using assms by (cases w) (simp_all add: appended_def already_processed_def not_le)

section \<open>Filtering by the time last processed\<close>

text \<open>
  Claim C5. For a file that can be read and any time to filter by, present or not:
  the rows returned are, in the order of the lines, the rows of exactly the lines that
  are appended; a line whose time parses is appended if and only if there is no time to
  filter by or the line's time is strictly later than it; the latest time returned starts
  from the time given and is raised by each appended line exactly when there is none so
  far or the line's time is later, so it is the greatest of the time given and the
  times of the appended lines; and every row returned comes from a line whose time is
  strictly later than the time given.
\<close>

theorem process_log_file_filters_by_time:
  assumes "folder f = Some lines"
  shows
    "fst (process_log_file folder f w)
       = map (\<lambda>line. line_row line (the (line_time line))) (filter (appended w) lines)
     \<and> (\<forall>line t. line_time line = Some t \<longrightarrow>
           (appended w line \<longleftrightarrow> w = None \<or> (\<exists>b. w = Some b \<and> b < t)))
     \<and> snd (process_log_file folder f w)
       = foldl raise_latest w (map (\<lambda>line. the (line_time line)) (filter (appended w) lines))
     \<and> (\<forall>l t. raise_latest l t = (if l = None \<or> (\<exists>c. l = Some c \<and> c < t) then Some t else l))
     \<and> w \<le> snd (process_log_file folder f w)
     \<and> (\<forall>line \<in> set lines. appended w line \<longrightarrow> line_time line \<le> snd (process_log_file folder f w))
     \<and> (snd (process_log_file folder f w) = w
         \<or> (\<exists>line \<in> set lines. appended w line \<and> snd (process_log_file folder f w) = line_time line))
     \<and> (\<forall>r \<in> set (fst (process_log_file folder f w)).
           \<exists>line \<in> set lines. \<exists>t. line_time line = Some t \<and> r = line_row line t
              \<and> (\<forall>b. w = Some b \<longrightarrow> b < t))"
proof -
  let ?kept = "filter (appended w) lines"
  let ?times = "map (\<lambda>line. the (line_time line)) ?kept"
  note result = process_log_file_appended [of folder f lines w, OF assms]
  have timed: "\<exists>t. line_time line = Some t" if "appended w line" for line
    using that by (cases "line_time line") (simp_all add: appended_def)
  have rows: "fst (process_log_file folder f w)
       = map (\<lambda>line. line_row line (the (line_time line))) ?kept"
    by (simp add: result)
  have iff: "\<forall>line t. line_time line = Some t \<longrightarrow>
           (appended w line \<longleftrightarrow> w = None \<or> (\<exists>b. w = Some b \<and> b < t))"
    using appended_iff by blast
  have latest: "snd (process_log_file folder f w) = foldl raise_latest w ?times"
    by (simp add: result)
  have rule: "\<forall>l t. raise_latest l t = (if l = None \<or> (\<exists>c. l = Some c \<and> c < t) then Some t else l)"
  proof (intro allI)
    fix l t
    show "raise_latest l t = (if l = None \<or> (\<exists>c. l = Some c \<and> c < t) then Some t else l)"
      by (cases l) (simp_all add: raise_latest_def)
  qed
  have lower: "w \<le> snd (process_log_file folder f w)"
    unfolding latest by (rule foldl_raise_latest_ge)
  have upper: "\<forall>line \<in> set lines. appended w line \<longrightarrow>
      line_time line \<le> snd (process_log_file folder f w)"
  proof (intro ballI impI)
    fix line
    assume line: "line \<in> set lines" and app: "appended w line"
    from timed [OF app] obtain t where t: "line_time line = Some t" ..
    from line app have "line \<in> set ?kept"
      by simp
    then have "the (line_time line) \<in> set ?times"
      unfolding set_map by (rule imageI)
    with t have "t \<in> set ?times"
      by simp
    then have "Some t \<le> foldl raise_latest w ?times"
      by (rule foldl_raise_latest_upper)
    with t show "line_time line \<le> snd (process_log_file folder f w)"
      by (simp add: latest)
  qed
  have attained: "snd (process_log_file folder f w) = w
      \<or> (\<exists>line \<in> set lines. appended w line \<and> snd (process_log_file folder f w) = line_time line)"
  proof -
    from foldl_raise_latest_mem [of w ?times]
    consider "foldl raise_latest w ?times = w"
      | t where "t \<in> set ?times" "foldl raise_latest w ?times = Some t"
      by blast
    then show ?thesis
    proof cases
      case 1
      then show ?thesis by (simp add: latest)
    next
      case 2
      from 2(1) obtain line where line: "line \<in> set lines" "appended w line"
        and "t = the (line_time line)"
        unfolding set_map set_filter by blast
      with timed [of line] have "line_time line = Some t"
        by fastforce
      with 2(2) line show ?thesis
        unfolding latest by metis
    qed
  qed
  have later: "\<forall>r \<in> set (fst (process_log_file folder f w)).
           \<exists>line \<in> set lines. \<exists>t. line_time line = Some t \<and> r = line_row line t
              \<and> (\<forall>b. w = Some b \<longrightarrow> b < t)"
  proof
    fix r
    assume "r \<in> set (fst (process_log_file folder f w))"
    then obtain line where line: "line \<in> set lines" "appended w line"
      and r: "r = line_row line (the (line_time line))"
      unfolding rows set_map set_filter by blast
    from timed [OF line(2)] obtain t where t: "line_time line = Some t" ..
    with line(2) have "\<forall>b. w = Some b \<longrightarrow> b < t"
      using appended_iff [of line t w] by blast
    with line(1) t r show "\<exists>line \<in> set lines. \<exists>t. line_time line = Some t \<and> r = line_row line t
              \<and> (\<forall>b. w = Some b \<longrightarrow> b < t)"
      by (metis option.sel)
  qed
  show ?thesis
    by (intro conjI rows iff latest rule lower upper attained later)
qed

lemma sample_appended:
  "\<not> appended (Some (Datetime 2024 3 5 10 20 42)) sample_1"
  "appended (Some (Datetime 2024 3 5 10 20 42)) sample_2"
  by (simp_all add: appended_def already_processed_def sample_1_time sample_2_time)

lemma sample_a_file: "sample_folder ''a.log'' = Some [sample_1, sample_2]"
  by (simp add: sample_folder_def)

theorem process_log_file_filters_by_time_witness:
  "sample_folder ''a.log'' = Some [sample_1, sample_2]
   \<and> line_time sample_1 = Some (Datetime 2024 3 5 10 20 42)
   \<and> line_time sample_2 = Some (Datetime 2024 3 5 10 20 43)
   \<and> fst (process_log_file sample_folder ''a.log'' (Some (Datetime 2024 3 5 10 20 42)))
       = [line_row sample_2 (Datetime 2024 3 5 10 20 43)]
   \<and> snd (process_log_file sample_folder ''a.log'' (Some (Datetime 2024 3 5 10 20 42)))
       = Some (Datetime 2024 3 5 10 20 43)"
proof -
  note filtered = process_log_file_filters_by_time
    [of sample_folder "''a.log''" "[sample_1, sample_2]" "Some (Datetime 2024 3 5 10 20 42)",
     OF sample_a_file]
  have kept: "filter (appended (Some (Datetime 2024 3 5 10 20 42))) [sample_1, sample_2] = [sample_2]"
    by (simp add: sample_appended)
  have rows: "fst (process_log_file sample_folder ''a.log'' (Some (Datetime 2024 3 5 10 20 42)))
       = [line_row sample_2 (Datetime 2024 3 5 10 20 43)]"
    unfolding filtered [THEN conjunct1] kept by (simp add: sample_2_time)
  have latest: "snd (process_log_file sample_folder ''a.log'' (Some (Datetime 2024 3 5 10 20 42)))
       = Some (Datetime 2024 3 5 10 20 43)"
    unfolding filtered [THEN conjunct2, THEN conjunct2, THEN conjunct1] kept
    by (simp add: sample_2_time raise_latest_def)
  from sample_a_file sample_1_time sample_2_time rows latest show ?thesis
    by (intro conjI)
qed

section \<open>The raw field\<close>

text \<open>
  Claim C7, as the code has it. The \<^verbatim>\<open>raw\<close> field of a row is \<^verbatim>\<open>line.strip()\<close>: the line
  without its leading and trailing whitespace, which includes the line feed that ends
  it. The raw fields of the rows returned are, in order, the stripped texts of the lines
  appended; whether the other patterns find their fields plays no part.
\<close>

theorem raw_is_stripped_line:
  assumes "folder f = Some lines"
  shows "map raw (fst (process_log_file folder f w)) = map strip (filter (appended w) lines)
     \<and> (\<forall>r \<in> set (fst (process_log_file folder f w)). \<exists>line \<in> set lines. raw r = strip line)"
proof -
  have rows: "map raw (fst (process_log_file folder f w)) = map strip (filter (appended w) lines)"
    by (simp add: process_log_file_appended [of folder f lines w, OF assms] line_row_def comp_def)
  have "\<exists>line \<in> set lines. raw r = strip line"
    if "r \<in> set (fst (process_log_file folder f w))" for r
  proof -
    from that have "raw r \<in> set (map raw (fst (process_log_file folder f w)))"
      by simp
    then have "raw r \<in> set (map strip (filter (appended w) lines))"
      by (simp only: rows)
    then show ?thesis
      by auto
  qed
  with rows show ?thesis
    by blast
qed

lemma indented_line:
  "line_time sample_indented = Some (Datetime 2024 3 5 10 20 42)"
  "strip sample_indented = sample_1"
  by code_simp+

lemma indented_file:
  "[''a.log'' \<mapsto> [sample_indented]] ''a.log'' = Some [sample_indented]"
  by simp

lemma indented_appended: "appended None sample_indented"
  by (simp add: appended_def already_processed_def indented_line)

theorem raw_is_stripped_line_witness:
  "map raw (fst (process_log_file [''a.log'' \<mapsto> [sample_indented]] ''a.log'' None))
     = [sample_1]"
proof -
  note stripped = raw_is_stripped_line
    [of "[''a.log'' \<mapsto> [sample_indented]]" "''a.log''"
        "[sample_indented]" None, OF indented_file, THEN conjunct1]
  have kept: "filter (appended None) [sample_indented] = [sample_indented]"
    using indented_appended by simp
  show ?thesis
    unfolding stripped kept by (simp add: indented_line)
qed

text \<open>The claim as it is written fails on this file: the one row returned has a raw
  field that is not the line.\<close>

theorem raw_not_verbatim:
  "map raw (fst (process_log_file [''a.log'' \<mapsto> [sample_indented]] ''a.log'' None))
     \<noteq> [sample_indented]"
proof -
  have "map raw (fst (process_log_file [''a.log'' \<mapsto> [sample_indented]] ''a.log'' None))
     = [sample_1]"
    by (simp add: process_log_file_appended
          [of "[''a.log'' \<mapsto> [sample_indented]]" "''a.log''" "[sample_indented]" None, OF indented_file]
        indented_appended indented_line line_row_def)
  moreover have "sample_1 \<noteq> sample_indented"
    by (simp add: sample_indented_def)
  ultimately show ?thesis
    by simp
qed

section \<open>Lines without a time\<close>

text \<open>
  Claim C3, at a file of two lines: one has no \<^verbatim>\<open>SystemTime\<close>, the other a \<^verbatim>\<open>SystemTime\<close>
  that \<^verbatim>\<open>strptime\<close> refuses. The other patterns find their fields in both lines, yet
  \<^verbatim>\<open>process_log_file\<close> returns no row for either: \<^verbatim>\<open>system_time\<close> is \<^verbatim>\<open>None\<close> when the tuple
  is built, \<^verbatim>\<open>system_time.strftime\<close> raises, and the handler of the line drops it. The
  latest time is not raised.
\<close>

theorem untimed_lines_are_dropped:
  "process_log_file [''a.log'' \<mapsto> [sample_no_time, sample_bad_time]] ''a.log'' None = ([], None)
   \<and> re_search (lazy_until dq) (key ''title'' @ [dq]) sample_no_time = Some ''G''
   \<and> re_search digits1 (key ''EventID'') sample_no_time = Some ''4624''
   \<and> re_search (lazy_until dq) (key ''title'' @ [dq]) sample_bad_time = Some ''H''
   \<and> re_search (lazy_until dq) (key ''SystemTime'' @ [dq]) sample_bad_time = Some ''yesterday''
   \<and> strptime_log (truncated_time ''yesterday'') = None"
proof -
  have "process_log_file [''a.log'' \<mapsto> [sample_no_time, sample_bad_time]] ''a.log'' None = ([], None)"
    by (simp add: process_log_file_def process_line_untimed sample_no_time_time sample_bad_time_time)
  moreover have "re_search (lazy_until dq) (key ''title'' @ [dq]) sample_no_time = Some ''G''"
    by code_simp
  moreover have "re_search digits1 (key ''EventID'') sample_no_time = Some ''4624''"
    by code_simp
  moreover have "re_search (lazy_until dq) (key ''title'' @ [dq]) sample_bad_time = Some ''H''"
    by code_simp
  moreover have "re_search (lazy_until dq) (key ''SystemTime'' @ [dq]) sample_bad_time = Some ''yesterday''"
    by code_simp
  moreover have "strptime_log (truncated_time ''yesterday'') = None"
    by code_simp
  ultimately show ?thesis
    by (intro conjI)
qed

section \<open>Two runs on the same file\<close>

text \<open>
  Claim C9. Take two runs of \<^verbatim>\<open>process_log_file\<close> on the same path with the same time to
  filter by, in two states of the folder that agree on what reading this file gives and
  may differ in every other file. Both runs return the same rows and the same latest
  time, and the value is fixed by the lines of the file and the time alone: for a file
  that cannot be read, no rows and the time given; for a file that can be read, the rows
  of the lines that are appended, in the order of the lines, and the time given raised
  by the times of those lines.
\<close>

theorem process_log_file_two_runs:
  assumes "folder1 file_path = folder2 file_path"
  shows
    "process_log_file folder1 file_path w = process_log_file folder2 file_path w
     \<and> (folder1 file_path = None \<longrightarrow>
          process_log_file folder1 file_path w = ([], w)
          \<and> process_log_file folder2 file_path w = ([], w))
     \<and> (\<forall>lines. folder1 file_path = Some lines \<longrightarrow>
          process_log_file folder1 file_path w
            = (map (\<lambda>line. line_row line (the (line_time line))) (filter (appended w) lines),
               foldl raise_latest w (map (\<lambda>line. the (line_time line)) (filter (appended w) lines)))
          \<and> process_log_file folder2 file_path w
            = (map (\<lambda>line. line_row line (the (line_time line))) (filter (appended w) lines),
               foldl raise_latest w (map (\<lambda>line. the (line_time line)) (filter (appended w) lines))))"
proof -
  have same: "process_log_file folder1 file_path w = process_log_file folder2 file_path w"
    using assms by (simp add: process_log_file_def)
  have unreadable: "process_log_file folder1 file_path w = ([], w)
      \<and> process_log_file folder2 file_path w = ([], w)"
    if "folder1 file_path = None"
    using that assms by (simp add: process_log_file_def)
  have readable: "process_log_file folder1 file_path w
        = (map (\<lambda>line. line_row line (the (line_time line))) (filter (appended w) lines),
           foldl raise_latest w (map (\<lambda>line. the (line_time line)) (filter (appended w) lines)))
      \<and> process_log_file folder2 file_path w
        = (map (\<lambda>line. line_row line (the (line_time line))) (filter (appended w) lines),
           foldl raise_latest w (map (\<lambda>line. the (line_time line)) (filter (appended w) lines)))"
    if "folder1 file_path = Some lines" for lines
  proof -
    from that assms have "folder2 file_path = Some lines"
      by simp
    with that show ?thesis
      by (simp add: process_log_file_appended)
  qed
  from same unreadable readable show ?thesis
    by blast
qed

lemma sample_other_folder:
  "sample_folder ''a.log'' = (sample_folder(''b.log'' := None)) ''a.log''"
  "sample_folder ''b.log'' \<noteq> (sample_folder(''b.log'' := None)) ''b.log''"
  by (simp_all add: sample_folder_def)

theorem process_log_file_two_runs_witness:
  "sample_folder ''b.log'' \<noteq> (sample_folder(''b.log'' := None)) ''b.log''
   \<and> process_log_file sample_folder ''a.log'' (Some (Datetime 2024 3 5 10 20 42))
      = ([line_row sample_2 (Datetime 2024 3 5 10 20 43)], Some (Datetime 2024 3 5 10 20 43))
   \<and> process_log_file (sample_folder(''b.log'' := None)) ''a.log'' (Some (Datetime 2024 3 5 10 20 42))
      = ([line_row sample_2 (Datetime 2024 3 5 10 20 43)], Some (Datetime 2024 3 5 10 20 43))"
proof -
  note runs = process_log_file_two_runs
    [of sample_folder "''a.log''" "sample_folder(''b.log'' := None)"
        "Some (Datetime 2024 3 5 10 20 42)", OF sample_other_folder(1),
     THEN conjunct2, THEN conjunct2, rule_format, OF sample_a_file]
  have kept: "filter (appended (Some (Datetime 2024 3 5 10 20 42))) [sample_1, sample_2] = [sample_2]"
    by (simp add: sample_appended)
  have computed: "(map (\<lambda>line. line_row line (the (line_time line))) [sample_2],
        foldl raise_latest (Some (Datetime 2024 3 5 10 20 42))
          (map (\<lambda>line. the (line_time line)) [sample_2]))
      = ([line_row sample_2 (Datetime 2024 3 5 10 20 43)], Some (Datetime 2024 3 5 10 20 43))"
    by (simp add: sample_2_time raise_latest_def)
  from runs have "process_log_file sample_folder ''a.log'' (Some (Datetime 2024 3 5 10 20 42))
      = ([line_row sample_2 (Datetime 2024 3 5 10 20 43)], Some (Datetime 2024 3 5 10 20 43))"
    and "process_log_file (sample_folder(''b.log'' := None)) ''a.log'' (Some (Datetime 2024 3 5 10 20 42))
      = ([line_row sample_2 (Datetime 2024 3 5 10 20 43)], Some (Datetime 2024 3 5 10 20 43))"
    unfolding kept computed by simp_all
  with sample_other_folder(2) show ?thesis
    by blast
qed

section \<open>Facts about the coordinator\<close>

lemma insert_data_to_sql_statement_error:
  "\<exists>table'. insert_data_to_sql (Insert_Statement_Error k) data c table = Inr table'"
  by (simp add: insert_data_to_sql_def)

lemma insert_batches_fails_first: "insert_batches (Some 0) data c offsets table = table"
  by (cases offsets) simp_all

lemma process_and_insert_log_returned:
  "fst (process_and_insert_log folder db f w table) = returned folder db f w"
proof (cases "process_log_file folder f w")
  case (Pair data latest_time)
  show ?thesis
  proof (cases "data = []")
    case True
    with Pair show ?thesis
      by (simp add: process_and_insert_log_def returned_def)
  next
    case False
    show ?thesis
    proof (cases "on_select db")
      case Select_Connect_Error
      with Pair False show ?thesis
        by (simp add: process_and_insert_log_def returned_def get_max_cluster_value_def)
    next
      case Select_Ok
      with Pair False show ?thesis
        by (cases "on_insert db")
          (simp_all add: process_and_insert_log_def returned_def get_max_cluster_value_def
            insert_data_to_sql_def split: option.splits)
    next
      case Select_Query_Error
      with Pair False show ?thesis
        by (cases "on_insert db")
          (simp_all add: process_and_insert_log_def returned_def get_max_cluster_value_def
            insert_data_to_sql_def)
    qed
  qed
qed

lemma worker_step_agrees:
  assumes "agrees folder db f w st"
  shows "agrees folder db f w (fst (worker_step folder db f w st table))"
proof (cases "process_log_file folder f w")
  case (Pair data latest_time)
  show ?thesis
  proof (cases st)
    case Waiting
    show ?thesis
    proof (cases "data = []")
      case True
      with Pair Waiting show ?thesis
        by (simp add: worker_step_def agrees_def returned_def)
    next
      case False
      with Pair Waiting show ?thesis
        by (cases "on_select db")
          (simp_all add: worker_step_def agrees_def returned_def get_max_cluster_value_def
            split: option.splits)
    qed
  next
    case (Selected c)
    with assms Pair have "data \<noteq> []" and "on_select db \<noteq> Select_Connect_Error"
      by (simp_all add: agrees_def)
    with Pair Selected show ?thesis
      by (cases "on_insert db")
        (simp_all add: worker_step_def agrees_def returned_def insert_data_to_sql_def)
  next
    case (Finished r)
    with assms Pair show ?thesis
      by (simp add: worker_step_def agrees_def)
  qed
qed

lemma complete_returned:
  assumes "agrees folder db f w st"
  shows "fst (complete folder db f w st table) = returned folder db f w"
proof (cases st)
  case Waiting
  then show ?thesis
    by (simp add: complete_def process_and_insert_log_returned)
next
  case (Selected c)
  obtain data latest_time where run: "process_log_file folder f w = (data, latest_time)"
    by (cases "process_log_file folder f w")
  with assms Selected have "data \<noteq> []" and "on_select db \<noteq> Select_Connect_Error"
    by (simp_all add: agrees_def)
  with run Selected show ?thesis
    by (cases "on_insert db")
      (simp_all add: complete_def returned_def insert_data_to_sql_def)
next
  case (Finished r)
  with assms show ?thesis
    by (simp add: complete_def agrees_def)
qed

lemma step_pool_agrees:
  assumes "list_all (\<lambda>(f, st). agrees folder (db f) f w st) ws"
  shows "list_all (\<lambda>(f, st). agrees folder (db f) f w st) (fst (step_pool folder db w g ws table))
     \<and> map fst (fst (step_pool folder db w g ws table)) = map fst ws"
  using assms
proof (induction ws)
  case Nil
  then show ?case by simp
next
  case (Cons fst_w ws)
  obtain f st where w: "fst_w = (f, st)"
    by (cases fst_w)
  show ?case
  proof (cases "g = f")
    case True
    obtain st' table' where step: "worker_step folder (db f) f w st table = (st', table')"
      by (cases "worker_step folder (db f) f w st table")
    from Cons.prems w have "agrees folder (db f) f w st"
      by simp
    then have "agrees folder (db f) f w st'"
      using worker_step_agrees [of folder "db f" f w st table] step by simp
    with Cons.prems w True step show ?thesis
      by simp
  next
    case False
    obtain ws' table' where rest: "step_pool folder db w g ws table = (ws', table')"
      by (cases "step_pool folder db w g ws table")
    with Cons w False show ?thesis
      by simp
  qed
qed

lemma run_schedule_agrees:
  assumes "list_all (\<lambda>(f, st). agrees folder (db f) f w st) ws"
  shows "list_all (\<lambda>(f, st). agrees folder (db f) f w st) (fst (run_schedule folder db w sched ws table))
     \<and> map fst (fst (run_schedule folder db w sched ws table)) = map fst ws"
  using assms
proof (induction sched arbitrary: ws table)
  case Nil
  then show ?case by simp
next
  case (Cons g sched)
  obtain ws' table' where step: "step_pool folder db w g ws table = (ws', table')"
    by (cases "step_pool folder db w g ws table")
  with step_pool_agrees [OF Cons.prems, of g table]
  have ok: "list_all (\<lambda>(f, st). agrees folder (db f) f w st) ws'" and names: "map fst ws' = map fst ws"
    by simp_all
  from Cons.IH [OF ok, of table'] step names show ?case
    by simp
qed

lemma complete_all_results:
  assumes "list_all (\<lambda>(f, st). agrees folder (db f) f w st) ws"
  shows "fst (complete_all folder db w ws table)
     = map (\<lambda>f. (f, returned folder (db f) f w)) (map fst ws)"
  using assms
proof (induction ws arbitrary: table)
  case Nil
  then show ?case by simp
next
  case (Cons fst_w ws)
  obtain f st where w: "fst_w = (f, st)"
    by (cases fst_w)
  obtain r table' where ended: "complete folder (db f) f w st table = (r, table')"
    by (cases "complete folder (db f) f w st table")
  from Cons.prems w have "agrees folder (db f) f w st"
    by simp
  then have r: "r = returned folder (db f) f w"
    using complete_returned [of folder "db f" f w st table] ended by simp
  obtain rs table'' where rest: "complete_all folder db w ws table' = (rs, table'')"
    by (cases "complete_all folder db w ws table'")
  from Cons.prems have "list_all (\<lambda>(f, st). agrees folder (db f) f w st) ws"
    by simp
  from Cons.IH [OF this, of table'] rest
  have "rs = map (\<lambda>f. (f, returned folder (db f) f w)) (map fst ws)"
    by simp
  with w ended r rest show ?case
    by simp
qed

lemma run_workers_results:
  "fst (run_workers folder db w sched fs table) = map (\<lambda>f. (f, returned folder (db f) f w)) fs"
proof -
  let ?ws0 = "map (\<lambda>f. (f, Waiting)) fs"
  obtain ws table' where run: "run_schedule folder db w sched ?ws0 table = (ws, table')"
    by (cases "run_schedule folder db w sched ?ws0 table")
  have "list_all (\<lambda>(f, st). agrees folder (db f) f w st) ?ws0"
    by (simp add: list_all_iff agrees_def)
  from run_schedule_agrees [OF this, of sched table] run
  have ok: "list_all (\<lambda>(f, st). agrees folder (db f) f w st) ws" and names: "map fst ws = fs"
    by (simp_all add: comp_def)
  show ?thesis
    by (simp add: run_workers_def run complete_all_results [OF ok] names)
qed

lemma run_workers_in_turn:
  "run_workers folder db w [] (f # fs) table =
     (case process_and_insert_log folder (db f) f w table of
        (r, table') \<Rightarrow>
          (case run_workers folder db w [] fs table' of
             (rs, table'') \<Rightarrow> ((f, r) # rs, table'')))"
  "run_workers folder db w [] [] table = ([], table)"
  by (simp_all add: run_workers_def complete_def)

lemma collect_poll_split:
  "collect_poll rs (c, seen) =
     (collect_first rs c, seen \<union> {f. \<exists>r. (f, Inr r) \<in> set rs})"
proof (induction rs arbitrary: c seen)
  case Nil
  then show ?case by simp
next
  case (Cons fr rs)
  obtain f r where fr: "fr = (f, r)"
    by (cases fr)
  show ?case
  proof (cases r)
    case (Inl e)
    with fr Cons.IH [of c seen] show ?thesis
      by auto
  next
    case (Inr result)
    with fr Cons.IH [of "take_result result c" "insert f seen"] show ?thesis
      by auto
  qed
qed

lemma take_result_max: "take_result result c = max c result"
proof (cases result)
  case None
  then show ?thesis by (simp add: take_result_def max_absorb1)
next
  case (Some r)
  then have "take_result result c = raise_latest c r"
    by (simp add: take_result_def raise_latest_def)
  with Some show ?thesis
    by (simp add: raise_latest_max)
qed

lemma collect_first_ge: "c \<le> collect_first rs c"
proof (induction rs arbitrary: c)
  case Nil
  then show ?case by simp
next
  case (Cons fr rs)
  obtain f r where fr: "fr = (f, r)"
    by (cases fr)
  show ?case
  proof (cases r)
    case (Inl e)
    with fr Cons.IH [of c] show ?thesis by simp
  next
    case (Inr result)
    have "c \<le> take_result result c"
      by (simp add: take_result_max)
    also have "\<dots> \<le> collect_first rs (take_result result c)"
      by (rule Cons.IH)
    finally show ?thesis
      using fr Inr by simp
  qed
qed

lemma collect_first_mem:
  "collect_first rs c = c \<or> (\<exists>f. (f, Inr (collect_first rs c)) \<in> set rs)"
proof (induction rs arbitrary: c)
  case Nil
  then show ?case by simp
next
  case (Cons fr rs)
  obtain f r where fr: "fr = (f, r)"
    by (cases fr)
  show ?case
  proof (cases r)
    case (Inl e)
    with fr Cons.IH [of c] show ?thesis by auto
  next
    case (Inr result)
    have step: "take_result result c = c \<or> take_result result c = result"
      by (simp add: take_result_max max_def)
    from Cons.IH [of "take_result result c"] fr Inr step show ?thesis
      by auto
  qed
qed

lemma returned_files:
  "{f. \<exists>r. (f, Inr r) \<in> set (map (\<lambda>f. (f, g f)) fs)} = {f \<in> set fs. \<exists>r. g f = Inr r}"
proof (intro set_eqI iffI)
  fix f
  assume "f \<in> {f. \<exists>r. (f, Inr r) \<in> set (map (\<lambda>f. (f, g f)) fs)}"
  then obtain r where "(f, Inr r) \<in> (\<lambda>f. (f, g f)) ` set fs"
    by auto
  then have "f \<in> set fs" and "g f = Inr r"
    by auto
  then show "f \<in> {f \<in> set fs. \<exists>r. g f = Inr r}"
    by blast
next
  fix f
  assume "f \<in> {f \<in> set fs. \<exists>r. g f = Inr r}"
  then obtain r where "f \<in> set fs" and "g f = Inr r"
    by blast
  then have "(f, Inr r) \<in> (\<lambda>f. (f, g f)) ` set fs"
    by (metis imageI)
  then show "f \<in> {f. \<exists>r. (f, Inr r) \<in> set (map (\<lambda>f. (f, g f)) fs)}"
    by auto
qed

lemma monitor_cycle_fields:
  "last_processed_time (monitor_cycle tk s) =
     collect_first (map (\<lambda>f. (f, returned (files tk) (database tk f) f (last_processed_time s)))
                      (new_files (listing tk) (processed_files s)))
       (last_processed_time s)"
  "processed_files (monitor_cycle tk s) =
     processed_files s \<union>
       {f \<in> set (new_files (listing tk) (processed_files s)).
          \<exists>r. returned (files tk) (database tk f) f (last_processed_time s) = Inr r}"
  "bookmark_file (monitor_cycle tk s) =
     (case last_processed_time (monitor_cycle tk s) of
        None \<Rightarrow> bookmark_file s
      | Some t \<Rightarrow> Some (strftime t))"
proof -
  let ?fs = "new_files (listing tk) (processed_files s)"
  let ?w = "last_processed_time s"
  obtain results table' where run:
    "run_workers (files tk) (database tk) ?w (schedule tk) ?fs (sigma_alerts s) = (results, table')"
    by (cases "run_workers (files tk) (database tk) ?w (schedule tk) ?fs (sigma_alerts s)")
  then have results: "results = map (\<lambda>f. (f, returned (files tk) (database tk f) f ?w)) ?fs"
    using run_workers_results [of "files tk" "database tk" ?w "schedule tk" ?fs "sigma_alerts s"]
    by simp
  have cycle: "monitor_cycle tk s =
      \<lparr> last_processed_time = collect_first results ?w,
        processed_files = processed_files s \<union> {f. \<exists>r. (f, Inr r) \<in> set results},
        bookmark_file =
          (case collect_first results ?w of None \<Rightarrow> bookmark_file s
           | Some t \<Rightarrow> update_last_processed_time t),
        sigma_alerts = table' \<rparr>"
    by (simp add: monitor_cycle_def run collect_poll_split)
  show "last_processed_time (monitor_cycle tk s) =
     collect_first (map (\<lambda>f. (f, returned (files tk) (database tk f) f ?w)) ?fs) ?w"
    by (simp add: cycle results)
  show "processed_files (monitor_cycle tk s) =
     processed_files s \<union> {f \<in> set ?fs. \<exists>r. returned (files tk) (database tk f) f ?w = Inr r}"
    unfolding cycle results returned_files by simp
  show "bookmark_file (monitor_cycle tk s) =
     (case last_processed_time (monitor_cycle tk s) of
        None \<Rightarrow> bookmark_file s
      | Some t \<Rightarrow> Some (strftime t))"
    by (simp add: cycle update_last_processed_time_def split: option.splits)
qed

lemma processed_files_grow: "processed_files s \<subseteq> processed_files (monitor_cycle tk s)"
  by (simp add: monitor_cycle_fields(2))

lemma processed_files_grow_cycles:
  "processed_files s \<subseteq> processed_files (foldl (\<lambda>s tk. monitor_cycle tk s) s tks)"
proof (induction tks arbitrary: s)
  case Nil
  then show ?case by simp
next
  case (Cons tk tks)
  have "processed_files s \<subseteq> processed_files (monitor_cycle tk s)"
    by (rule processed_files_grow)
  also have "\<dots> \<subseteq> processed_files (foldl (\<lambda>s tk. monitor_cycle tk s) (monitor_cycle tk s) tks)"
    by (rule Cons.IH)
  finally show ?case by simp
qed

lemma new_files_set: "set (new_files current seen) = set current - seen"
  by (auto simp: new_files_def)

section \<open>Files that cannot be read\<close>

text \<open>
  Claim C4, as the code has it. \<^verbatim>\<open>process_log_file\<close> catches the error of a file it cannot
  read: the file gives no rows, and the time returned for it is the time passed in, so
  the worker returns, leaves the table as it is and raises nothing. The coordinator
  therefore adds the file to \<^verbatim>\<open>processed_files\<close> in the cycle that lists it, the file is not
  among the new files of the next cycle, and it stays in \<^verbatim>\<open>processed_files\<close> through every
  later cycle: it is not tried again while the process lives.
\<close>

theorem unreadable_file_is_marked_processed:
  assumes "files tk f = None" and "f \<in> set (listing tk)"
  shows
    "process_log_file (files tk) f w = ([], w)
     \<and> process_and_insert_log (files tk) db f w table = (Inr w, table)
     \<and> f \<in> processed_files (monitor_cycle tk s)
     \<and> f \<notin> set (new_files (listing tk') (processed_files (monitor_cycle tk s)))
     \<and> f \<in> processed_files (foldl (\<lambda>s tk. monitor_cycle tk s) (monitor_cycle tk s) tks)"
proof -
  have no_rows: "process_log_file (files tk) f w = ([], w)" for w
    using assms(1) by (simp add: process_log_file_def)
  have worker: "process_and_insert_log (files tk) db f w table = (Inr w, table)"
    by (simp add: process_and_insert_log_def no_rows)
  have "returned (files tk) (database tk f) f (last_processed_time s) = Inr (last_processed_time s)"
    by (simp add: returned_def no_rows)
  with assms(2) have seen: "f \<in> processed_files (monitor_cycle tk s)"
    by (simp add: monitor_cycle_fields(2) new_files_set)
  then have "f \<notin> set (new_files (listing tk') (processed_files (monitor_cycle tk s)))"
    by (simp add: new_files_set)
  moreover from seen
  have "f \<in> processed_files (foldl (\<lambda>s tk. monitor_cycle tk s) (monitor_cycle tk s) tks)"
    using processed_files_grow_cycles [of "monitor_cycle tk s" tks] by blast
  ultimately show ?thesis
    using no_rows worker seen by blast
qed

lemma unreadable_sample: "files tick_unreadable ''d.log'' = None"
  "''d.log'' \<in> set (listing tick_unreadable)"
  by (simp_all add: tick_unreadable_def sample_folder_def)

theorem unreadable_file_is_marked_processed_witness:
  "files tick_unreadable ''d.log'' = None
   \<and> ''d.log'' \<in> set (listing tick_unreadable)
   \<and> process_log_file (files tick_unreadable) ''d.log'' (Some (Datetime 2024 3 5 10 20 42))
       = ([], Some (Datetime 2024 3 5 10 20 42))
   \<and> ''d.log'' \<in> processed_files (monitor_cycle tick_unreadable sample_state)
   \<and> ''d.log'' \<notin> set (new_files (listing tick_unreadable)
                          (processed_files (monitor_cycle tick_unreadable sample_state)))"
  using unreadable_file_is_marked_processed
    [of tick_unreadable "''d.log''" "Some (Datetime 2024 3 5 10 20 42)" "all_ok ''d.log''" "[]"
        sample_state tick_unreadable "[]", OF unreadable_sample]
    unreadable_sample
  by blast

text \<open>The claim as it is written fails on the sample folder: the file that cannot be
  read is in \<^verbatim>\<open>processed_files\<close> after the cycle.\<close>

theorem unreadable_file_not_retried:
  "files tick_unreadable ''d.log'' = None
   \<and> ''d.log'' \<in> processed_files (monitor_cycle tick_unreadable sample_state)"
proof -
  have "returned sample_folder (all_ok ''d.log'') ''d.log'' (Some (Datetime 2024 3 5 10 20 42))
      = Inr (Some (Datetime 2024 3 5 10 20 42))"
    by (simp add: returned_def process_log_file_def sample_folder_def)
  then have "''d.log'' \<in> processed_files (monitor_cycle tick_unreadable sample_state)"
    by (simp add: monitor_cycle_fields(2) new_files_def tick_unreadable_def sample_state_def)
  with unreadable_sample(1) show ?thesis
    by simp
qed

section \<open>A failed insert and the bookmark\<close>

text \<open>
  Claim C1, as the code has it. \<^verbatim>\<open>insert_data_to_sql\<close> catches the error of a statement,
  logs it and returns nothing, and \<^verbatim>\<open>process_and_insert_log\<close> returns the latest time of
  the file whether the insert succeeded or not. So a failing statement leaves no trace
  on the coordinator: the time it holds, the files it marks as processed and the
  bookmark it writes at the end of the cycle are those of the same cycle with every
  insert succeeding, whenever no \<^verbatim>\<open>connect\<close> of an insert fails in either.
\<close>

theorem bookmark_ignores_failed_insert:
  assumes "\<forall>f. on_select (db f) = on_select (db' f)"
    and "\<forall>f. on_insert (db f) \<noteq> Insert_Connect_Error \<and> on_insert (db' f) \<noteq> Insert_Connect_Error"
  shows
    "last_processed_time (monitor_cycle (tk\<lparr>database := db\<rparr>) s)
       = last_processed_time (monitor_cycle (tk\<lparr>database := db'\<rparr>) s)
     \<and> processed_files (monitor_cycle (tk\<lparr>database := db\<rparr>) s)
       = processed_files (monitor_cycle (tk\<lparr>database := db'\<rparr>) s)
     \<and> bookmark_file (monitor_cycle (tk\<lparr>database := db\<rparr>) s)
       = bookmark_file (monitor_cycle (tk\<lparr>database := db'\<rparr>) s)"
proof -
  have same: "returned folder (db f) f w = returned folder (db' f) f w" for folder f w
    using assms by (simp add: returned_def)
  have time: "last_processed_time (monitor_cycle (tk\<lparr>database := db\<rparr>) s)
       = last_processed_time (monitor_cycle (tk\<lparr>database := db'\<rparr>) s)"
    by (simp add: monitor_cycle_fields(1) same)
  have seen: "processed_files (monitor_cycle (tk\<lparr>database := db\<rparr>) s)
       = processed_files (monitor_cycle (tk\<lparr>database := db'\<rparr>) s)"
    by (simp add: monitor_cycle_fields(2) same)
  have "bookmark_file (monitor_cycle (tk\<lparr>database := db\<rparr>) s)
       = bookmark_file (monitor_cycle (tk\<lparr>database := db'\<rparr>) s)"
    by (simp only: monitor_cycle_fields(3) time)
  with time seen show ?thesis
    by blast
qed

lemma sample_a_after_42:
  "process_log_file sample_folder ''a.log'' (Some (Datetime 2024 3 5 10 20 42)) =
     ([line_row sample_2 (Datetime 2024 3 5 10 20 43)], Some (Datetime 2024 3 5 10 20 43))"
  by (simp add: process_log_file_def sample_folder_def process_line_timed
      sample_1_time sample_2_time already_processed_def raise_latest_def)

lemma strftime_43: "strftime (Datetime 2024 3 5 10 20 43) = ''2024-03-05 10:20:43''"
  by code_simp

lemma insert_fails_cycle:
  "last_processed_time (monitor_cycle tick_insert_fails sample_state)
     = Some (Datetime 2024 3 5 10 20 43)"
  by (simp add: monitor_cycle_fields(1) tick_insert_fails_def sample_state_def new_files_def
      returned_def sample_a_after_42 insert_fails_def take_result_def)

lemma insert_fails_table: "sigma_alerts (monitor_cycle tick_insert_fails sample_state) = []"
  by (simp add: monitor_cycle_def tick_insert_fails_def sample_state_def new_files_def
      run_workers_in_turn
      process_and_insert_log_def sample_a_after_42 insert_fails_def get_max_cluster_value_def
      sql_max_cluster_def List.map_filter_simps insert_data_to_sql_def insert_batches_fails_first
      split: prod.splits)

theorem bookmark_ignores_failed_insert_witness:
  "bookmark_file (monitor_cycle tick_insert_fails sample_state)
     = bookmark_file (monitor_cycle tick_insert_ok sample_state)
   \<and> bookmark_file (monitor_cycle tick_insert_fails sample_state) = Some ''2024-03-05 10:20:43''
   \<and> on_insert (database tick_insert_fails ''a.log'') = Insert_Statement_Error 0
   \<and> on_insert (database tick_insert_ok ''a.log'') = Insert_Ok"
proof -
  have ticks: "tick_insert_fails = tick_insert_ok\<lparr>database := insert_fails\<rparr>"
    "tick_insert_ok = tick_insert_ok\<lparr>database := all_ok\<rparr>"
    by (simp_all add: tick_insert_fails_def tick_insert_ok_def)
  have "bookmark_file (monitor_cycle (tick_insert_ok\<lparr>database := insert_fails\<rparr>) sample_state)
     = bookmark_file (monitor_cycle (tick_insert_ok\<lparr>database := all_ok\<rparr>) sample_state)"
    using bookmark_ignores_failed_insert [of insert_fails all_ok tick_insert_ok sample_state]
    by (simp add: insert_fails_def all_ok_def)
  then have same: "bookmark_file (monitor_cycle tick_insert_fails sample_state)
     = bookmark_file (monitor_cycle tick_insert_ok sample_state)"
    by (simp only: ticks [symmetric])
  have written: "bookmark_file (monitor_cycle tick_insert_fails sample_state) = Some ''2024-03-05 10:20:43''"
    by (simp add: monitor_cycle_fields(3) insert_fails_cycle strftime_43)
  have "on_insert (database tick_insert_fails ''a.log'') = Insert_Statement_Error 0"
    "on_insert (database tick_insert_ok ''a.log'') = Insert_Ok"
    by (simp_all add: tick_insert_fails_def tick_insert_ok_def insert_fails_def all_ok_def)
  with same written show ?thesis
    by blast
qed

text \<open>The claim as it is written fails on the sample folder: the insert of the one new
  row fails, the table stays empty, and the bookmark moves from 10:20:42 to 10:20:43.\<close>

theorem failed_insert_advances_bookmark:
  "on_insert (database tick_insert_fails ''a.log'') = Insert_Statement_Error 0
   \<and> sigma_alerts sample_state = []
   \<and> sigma_alerts (monitor_cycle tick_insert_fails sample_state) = []
   \<and> bookmark_file sample_state = Some ''2024-03-05 10:20:42''
   \<and> bookmark_file (monitor_cycle tick_insert_fails sample_state) = Some ''2024-03-05 10:20:43''"
proof -
  have "bookmark_file (monitor_cycle tick_insert_fails sample_state) = Some ''2024-03-05 10:20:43''"
    by (simp add: monitor_cycle_fields(3) insert_fails_cycle strftime_43)
  moreover have "on_insert (database tick_insert_fails ''a.log'') = Insert_Statement_Error 0"
    by (simp add: tick_insert_fails_def insert_fails_def)
  moreover have "sigma_alerts sample_state = []" "bookmark_file sample_state = Some ''2024-03-05 10:20:42''"
    by (simp_all add: sample_state_def)
  ultimately show ?thesis
    using insert_fails_table by blast
qed

section \<open>The order in which the futures are collected\<close>

lemma collect_first_fold:
  "collect_first rs c =
     fold (\<lambda>fr c. case snd fr of Inl e \<Rightarrow> c | Inr result \<Rightarrow> take_result result c) rs c"
proof (induction rs arbitrary: c)
  case Nil
  then show ?case by simp
next
  case (Cons fr rs)
  then show ?case
    by (cases fr) simp
qed

lemma collect_first_permuted:
  assumes "mset rs = mset rs'"
  shows "collect_first rs c = collect_first rs' c"
proof -
  let ?step = "\<lambda>fr c. case snd fr of Inl e \<Rightarrow> c | Inr result \<Rightarrow> take_result result c"
  have "?step x \<circ> ?step y = ?step y \<circ> ?step x" for x y :: "string \<times> (py_exception + datetime option)"
    by (rule ext) (simp add: take_result_max max.left_commute max.commute split: sum.splits)
  then have "fold ?step rs = fold ?step rs'"
    using assms by (intro fold_multiset_equiv) simp_all
  then show ?thesis
    by (simp add: collect_first_fold)
qed

lemma collect_poll_permuted:
  assumes "mset rs = mset rs'"
  shows "collect_poll rs (c, seen) = collect_poll rs' (c, seen)"
proof -
  from assms have "set rs = set rs'"
    by (rule mset_eq_setD)
  with collect_first_permuted [OF assms, of c] show ?thesis
    by (simp add: collect_poll_split)
qed

section \<open>Facts about formatting and parsing times\<close>

lemma of_char_digit_char: "(of_char (digit_char n) :: nat) = 48 + n mod 10"
proof -
  have "(48 + n mod 10) mod 256 = 48 + n mod 10"
    by (rule mod_less) (simp add: pos_mod_bound less_imp_le trans_less_add2)
  then show ?thesis
    by (simp add: digit_char_def)
qed

lemma isdigit_digit_char [simp]: "isdigit (digit_char n)"
  by (simp add: isdigit_def of_char_digit_char)

lemma digit_val_digit_char [simp]: "digit_val (digit_char n) = n mod 10"
  by (simp add: digit_val_def of_char_digit_char)

lemma isdigit_not_space: "isdigit c \<Longrightarrow> \<not> isspace c"
  by (auto simp: isdigit_def isspace_def Let_def)

lemma not_isdigit_separators [simp]:
  "\<not> isdigit CHR ''-''" "\<not> isdigit CHR '':''" "\<not> isdigit CHR '' ''"
  by (simp_all add: isdigit_def)

lemma digit_char_not_separator [simp]:
  "digit_char n \<noteq> CHR ''-''" "digit_char n \<noteq> CHR '':''" "digit_char n \<noteq> CHR '' ''"
  using isdigit_digit_char [of n] not_isdigit_separators by metis+

lemma not_isspace_digit_char [simp]: "\<not> isspace (digit_char n)"
  by (rule isdigit_not_space) simp

lemma split_on_append:
  assumes "\<forall>x \<in> set a. \<not> P x" and "P c"
  shows "split_on P (a @ c # b) = Some (a, b)"
  using assms by (induction a) simp_all

lemma int_of_digits_pad2:
  assumes "n < 100"
  shows "int_of_digits (pad2 n) = n"
proof -
  define a where "a = n div 10"
  define r where "r = n mod 10"
  have n: "n = 10 * a + r"
    by (simp add: a_def r_def)
  have "a < 10"
    using assms by (simp add: a_def)
  then have a: "a mod 10 = a"
    by simp
  have "int_of_digits (pad2 n) = 10 * (a mod 10) + r"
    by (simp add: int_of_digits_def pad2_def a_def r_def)
  also have "\<dots> = n"
    unfolding a using n by simp
  finally show ?thesis .
qed

lemma int_of_digits_pad4:
  assumes "n \<le> 9999"
  shows "int_of_digits (pad4 n) = n"
proof -
  define a where "a = n div 10"
  define b where "b = a div 10"
  define c where "c = b div 10"
  define r0 where "r0 = n mod 10"
  define r1 where "r1 = a mod 10"
  define r2 where "r2 = b mod 10"
  have n: "n = 10 * a + r0"
    by (simp add: a_def r0_def)
  have a: "a = 10 * b + r1"
    by (simp add: b_def r1_def)
  have b: "b = 10 * c + r2"
    by (simp add: c_def r2_def)
  have "c < 10"
    using assms by (simp add: a_def b_def c_def div_mult2_eq [symmetric])
  then have c: "c mod 10 = c"
    by simp
  have digits: "n div 100 = b" "n div 1000 = c"
    by (simp_all add: a_def b_def c_def div_mult2_eq [symmetric])
  have "int_of_digits (pad4 n) = 10 * (10 * (10 * (c mod 10) + r2) + r1) + r0"
    by (simp add: int_of_digits_def pad4_def digits a_def r0_def r1_def r2_def)
  also have "\<dots> = n"
    unfolding c using n a b by simp
  finally show ?thesis .
qed

lemma year_field_pad4: "y \<le> 9999 \<Longrightarrow> year_field (pad4 y) = Some y"
  by (simp add: year_field_def int_of_digits_pad4) (simp add: pad4_def)

lemma decimal_digits: "decimal n \<noteq> [] \<and> list_all isdigit (decimal n)"
proof (induction n rule: decimal.induct)
  case (1 n)
  show ?case
  proof (cases "n < 10")
    case True
    then show ?thesis
      by (simp add: decimal.simps [of n])
  next
    case False
    with 1 show ?thesis
      by (simp add: decimal.simps [of n])
  qed
qed

lemma decimal_pad4:
  assumes "1000 \<le> y" and "y \<le> 9999"
  shows "decimal y = pad4 y"
proof -
  define a where "a = y div 10"
  define b where "b = a div 10"
  define c where "c = b div 10"
  have digits: "y div 100 = b" "y div 1000 = c"
    by (simp_all add: a_def b_def c_def div_mult2_eq [symmetric])
  have a: "100 \<le> a"
    using assms(1) by (simp add: a_def)
  then have b: "10 \<le> b"
    by (simp add: b_def)
  have c: "c < 10"
    using assms(2) by (simp add: a_def b_def c_def div_mult2_eq [symmetric])
  have "decimal y = decimal a @ [digit_char y]"
    using assms(1) by (simp add: decimal.simps [of y] a_def)
  also have "decimal a = decimal b @ [digit_char a]"
    using a by (simp add: decimal.simps [of a] b_def)
  also have "decimal b = decimal c @ [digit_char b]"
    using b by (simp add: decimal.simps [of b] c_def)
  also have "decimal c = [digit_char c]"
    using c by (simp add: decimal.simps [of c])
  finally show ?thesis
    by (simp add: pad4_def digits a_def)
qed

lemma length_decimal:
  assumes "n < 10 ^ k" and "0 < k"
  shows "length (decimal n) \<le> k"
  using assms
proof (induction k arbitrary: n)
  case 0
  then show ?case by simp
next
  case (Suc k)
  show ?case
  proof (cases "n < 10")
    case True
    then show ?thesis
      by (simp add: decimal.simps [of n])
  next
    case False
    then have k: "0 < k"
      using Suc.prems(1) by (cases k) simp_all
    from Suc.prems(1) have "n div 10 < 10 ^ k"
      by (simp add: less_mult_imp_div_less mult.commute)
    from Suc.IH [OF this k] False show ?thesis
      by (simp add: decimal.simps [of n])
  qed
qed

lemma year_field_short: "y < 1000 \<Longrightarrow> year_field (decimal y) = None"
  using length_decimal [of y 3] by (simp add: year_field_def)

lemma decimal_no_dash: "\<forall>x \<in> set (decimal y). \<not> x = CHR ''-''"
  using decimal_digits [of y] not_isdigit_separators(1) by (auto simp: list_all_iff)

lemma num_field_pad2:
  assumes "lo \<le> n" and "n \<le> hi" and "n < 100"
  shows "num_field lo hi (pad2 n) = Some n"
proof -
  have "int_of_digits (pad2 n) = n"
    using assms(3) by (rule int_of_digits_pad2)
  moreover have "pad2 n \<noteq> []" "length (pad2 n) \<le> 2" "list_all isdigit (pad2 n)"
    by (simp_all add: pad2_def)
  ultimately show ?thesis
    using assms(1,2) by (simp add: num_field_def)
qed

lemma day_field_pad2:
  assumes "1 \<le> d" and "d \<le> 31"
  shows "day_field (pad2 d) = Some d"
proof -
  have "num_field 1 31 (pad2 d) = Some d"
    using assms by (intro num_field_pad2) simp_all
  then show ?thesis
    by (simp add: day_field_def pad2_def)
qed

lemma day_then_space_pad2:
  assumes "1 \<le> d" and "d \<le> 31"
  shows "day_then_space (pad2 d @ CHR '' '' # pad2 H @ rest) = Some (d, pad2 H @ rest)"
proof -
  have digits: "takeWhile isdigit (pad2 d @ CHR '' '' # pad2 H @ rest) = pad2 d"
    "dropWhile isdigit (pad2 d @ CHR '' '' # pad2 H @ rest) = CHR '' '' # pad2 H @ rest"
    by (simp_all add: pad2_def)
  have head: "hd (pad2 d @ CHR '' '' # pad2 H @ rest) \<noteq> CHR '' ''"
    "pad2 d @ CHR '' '' # pad2 H @ rest \<noteq> []"
    by (simp_all add: pad2_def)
  have blank: "isspace CHR '' ''"
    by (simp add: isspace_def)
  have after: "dropWhile isspace (CHR '' '' # pad2 H @ rest) = pad2 H @ rest"
    using blank by (simp add: pad2_def)
  show ?thesis
    unfolding day_then_space_def Let_def
    using head by (simp add: digits blank after day_field_pad2 [OF assms] del: dropWhile.simps)
qed

lemma strptime_bookmark_strftime:
  assumes "is_datetime t" and "1000 \<le> year t"
  shows "strptime_bookmark (strftime t) = Some t"
proof (cases t)
  case (Datetime y m d H M S)
  with assms(1) have ok: "1 \<le> y" "y \<le> 9999" "1 \<le> m" "m \<le> 12" "1 \<le> d" "d \<le> days_in_month y m"
    "H \<le> 23" "M \<le> 59" "S \<le> 59"
    by (simp_all add: is_datetime_def make_datetime_def split: if_splits)
  have d31: "d \<le> 31"
    using ok(6) by (simp add: days_in_month_def split: if_splits)
  have digits4: "\<forall>x \<in> set (pad4 y). \<not> x = CHR ''-''"
    by (simp add: pad4_def)
  have digits2: "\<forall>x \<in> set (pad2 n). \<not> x = CHR ''-''" "\<forall>x \<in> set (pad2 n). \<not> x = CHR '':''" for n
    by (simp_all add: pad2_def)
  have s1: "split_on (\<lambda>c. c = CHR ''-'')
        (pad4 y @ CHR ''-'' # pad2 m @ CHR ''-'' # pad2 d @ CHR '' '' # pad2 H @ CHR '':'' # pad2 M @ CHR '':'' # pad2 S)
      = Some (pad4 y, pad2 m @ CHR ''-'' # pad2 d @ CHR '' '' # pad2 H @ CHR '':'' # pad2 M @ CHR '':'' # pad2 S)"
    by (rule split_on_append [OF digits4]) simp
  have s2: "split_on (\<lambda>c. c = CHR ''-'')
        (pad2 m @ CHR ''-'' # pad2 d @ CHR '' '' # pad2 H @ CHR '':'' # pad2 M @ CHR '':'' # pad2 S)
      = Some (pad2 m, pad2 d @ CHR '' '' # pad2 H @ CHR '':'' # pad2 M @ CHR '':'' # pad2 S)"
    by (rule split_on_append [OF digits2(1)]) simp
  have s3: "day_then_space (pad2 d @ CHR '' '' # pad2 H @ CHR '':'' # pad2 M @ CHR '':'' # pad2 S)
      = Some (d, pad2 H @ CHR '':'' # pad2 M @ CHR '':'' # pad2 S)"
    by (rule day_then_space_pad2 [OF ok(5) d31])
  have s4: "split_on (\<lambda>c. c = CHR '':'') (pad2 H @ CHR '':'' # pad2 M @ CHR '':'' # pad2 S)
      = Some (pad2 H, pad2 M @ CHR '':'' # pad2 S)"
    by (rule split_on_append [OF digits2(2)]) simp
  have s5: "split_on (\<lambda>c. c = CHR '':'') (pad2 M @ CHR '':'' # pad2 S) = Some (pad2 M, pad2 S)"
    by (rule split_on_append [OF digits2(2)]) simp
  have fields: "year_field (pad4 y) = Some y" "num_field 1 12 (pad2 m) = Some m"
    "num_field 0 23 (pad2 H) = Some H" "num_field 0 59 (pad2 M) = Some M"
    "num_field 0 61 (pad2 S) = Some S"
    using ok by (simp_all add: year_field_pad4 num_field_pad2)
  from fields(2) have month_field: "num_field (Suc 0) 12 (pad2 m) = Some m"
    by simp
  have made: "make_datetime y m d H M S = Some t"
    using ok Datetime by (simp add: make_datetime_def)
  have "decimal y = pad4 y"
    using assms(2) ok(2) Datetime by (intro decimal_pad4) simp_all
  then have shape: "strftime t =
      pad4 y @ CHR ''-'' # pad2 m @ CHR ''-'' # pad2 d @ CHR '' '' # pad2 H @ CHR '':'' # pad2 M @ CHR '':'' # pad2 S"
    using Datetime by (simp add: strftime_def)
  show ?thesis
    unfolding strptime_bookmark_def shape by (simp add: s1 s2 s3 s4 s5 fields month_field made)
qed

lemma strptime_bookmark_strftime_short:
  assumes "year t < 1000"
  shows "strptime_bookmark (strftime t) = None"
proof -
  have "split_on (\<lambda>c. c = CHR ''-'')
        (decimal (year t) @ CHR ''-'' # pad2 (month t) @ ''-'' @ pad2 (day t) @ '' ''
           @ pad2 (hour t) @ '':'' @ pad2 (minute t) @ '':'' @ pad2 (second t))
      = Some (decimal (year t), pad2 (month t) @ ''-'' @ pad2 (day t) @ '' ''
           @ pad2 (hour t) @ '':'' @ pad2 (minute t) @ '':'' @ pad2 (second t))"
    by (rule split_on_append [OF decimal_no_dash]) simp
  then have first: "split_on (\<lambda>c. c = CHR ''-'') (strftime t)
      = Some (decimal (year t), pad2 (month t) @ ''-'' @ pad2 (day t) @ '' ''
           @ pad2 (hour t) @ '':'' @ pad2 (minute t) @ '':'' @ pad2 (second t))"
    by (simp add: strftime_def)
  show ?thesis
    unfolding strptime_bookmark_def first
    by (simp add: year_field_short [OF assms] split: Option.bind_split prod.splits)
qed

lemma strip_unchanged:
  assumes "s \<noteq> []" and "\<not> isspace (hd s)" and "\<not> isspace (last s)"
  shows "strip s = s"
proof -
  from assms(1,2) have front: "dropWhile isspace s = s"
    by (cases s) simp_all
  from assms(1,3) have "dropWhile isspace (rev s) = rev s"
    by (cases "rev s") (simp_all add: last_rev [symmetric] hd_rev)
  with front show ?thesis
    by (simp add: strip_def)
qed

lemma strip_strftime: "strip (strftime t) = strftime t" and strftime_not_empty: "strftime t \<noteq> []"
proof -
  have year: "decimal (year t) \<noteq> []" "isdigit (hd (decimal (year t)))"
    using decimal_digits [of "year t"] by (cases "decimal (year t)"; simp)+
  then show "strftime t \<noteq> []"
    by (simp add: strftime_def)
  moreover have "\<not> isspace (hd (strftime t))"
    using year by (simp add: strftime_def isdigit_not_space)
  moreover have "\<not> isspace (last (strftime t))"
    by (simp add: strftime_def pad2_def)
  ultimately show "strip (strftime t) = strftime t"
    by (rule strip_unchanged)
qed

lemma read_back:
  "is_datetime t \<Longrightarrow> 1000 \<le> year t \<Longrightarrow>
     read_last_processed_time Read_Ok (Some (strftime t)) = Inr (Some t)"
  by (simp add: read_last_processed_time_def strip_strftime strftime_not_empty
      strptime_bookmark_strftime)

lemma read_back_short:
  "year t < 1000 \<Longrightarrow> read_last_processed_time Read_Ok (Some (strftime t)) = Inr None"
  by (simp add: read_last_processed_time_def strip_strftime strftime_not_empty
      strptime_bookmark_strftime_short)

lemma make_datetime_is_datetime: "make_datetime y m d H M S = Some t \<Longrightarrow> is_datetime t"
  by (auto simp: make_datetime_def is_datetime_def split: if_splits)


lemma strptime_bookmark_is_datetime: "strptime_bookmark s = Some t \<Longrightarrow> is_datetime t"
  unfolding strptime_bookmark_def
  by (auto simp: make_datetime_is_datetime split: Option.bind_splits if_splits)


lemma read_is_datetime:
  "read_last_processed_time outcome bookmark = Inr (Some t) \<Longrightarrow> is_datetime t"
  by (auto simp: read_last_processed_time_def Let_def strptime_bookmark_is_datetime
      split: option.splits if_splits read_outcome.splits)

section \<open>Facts about the start\<close>



lemma monitor_start_loaded:
  "read_last_processed_time outcome bookmark = Inr loaded \<Longrightarrow>
     monitor_start tk outcome bookmark table = Inr (monitor_begin tk loaded bookmark table)"
  by (simp add: monitor_start_def)

lemma read_last_processed_time_none_iff:
  "read_last_processed_time Read_Ok bookmark = Inr None \<longleftrightarrow>
     bookmark = None
     \<or> (\<exists>text. bookmark = Some text
           \<and> (strip text = [] \<or> strptime_bookmark (strip text) = None))"
  by (cases bookmark) (simp_all add: read_last_processed_time_def Let_def)

lemma read_last_processed_time_returns:
  "\<exists>loaded. read_last_processed_time Read_Ok bookmark = Inr loaded"
  "\<exists>loaded. read_last_processed_time outcome None = Inr loaded"
  by (cases bookmark) (simp_all add: read_last_processed_time_def Let_def)

lemma corrupt_text_starts_first_run:
  "read_last_processed_time Read_Ok (Some ''not a time'') = Inr None"
  "monitor_start tk Read_Ok (Some ''not a time'') table
     = Inr (monitor_begin tk None (Some ''not a time'') table)"
proof -
  show "read_last_processed_time Read_Ok (Some ''not a time'') = Inr None"
    by code_simp
  then show "monitor_start tk Read_Ok (Some ''not a time'') table
     = Inr (monitor_begin tk None (Some ''not a time'') table)"
    by (rule monitor_start_loaded)
qed

section \<open>Loading the bookmark\<close>

text \<open>
  Claim C8, at a bookmark file that exists and cannot be read as text: its bytes are no
  text in the encoding of the locale, so \<^verbatim>\<open>file.read()\<close> raises \<^verbatim>\<open>UnicodeDecodeError\<close>.
  The \<^verbatim>\<open>try\<close> of \<^verbatim>\<open>read_last_processed_time\<close> starts after \<^verbatim>\<open>open\<close> and \<^verbatim>\<open>read\<close> and catches only
  the \<^verbatim>\<open>ValueError\<close> of \<^verbatim>\<open>strptime\<close>: the exception leaves the function, and it leaves
  \<^verbatim>\<open>monitor_folder\<close>, which calls the function in no \<^verbatim>\<open>try\<close> block, before any file is
  processed and whatever the cycles to come. The bookmark is not treated as a first
  run.
\<close>

theorem unreadable_bookmark_is_fatal:
  "read_last_processed_time (Read_Error UnicodeDecodeError) (Some content)
     = Inl UnicodeDecodeError
   \<and> monitor_start tk (Read_Error UnicodeDecodeError) (Some content) table
     = Inl UnicodeDecodeError
   \<and> monitor_folder tk tks (Read_Error UnicodeDecodeError) (Some content) table
     = Inl UnicodeDecodeError"
  by (simp add: read_last_processed_time_def monitor_start_def monitor_folder_def)

section \<open>Facts about the time the coordinator holds\<close>

lemma collect_first_upper: "(f, Inr r) \<in> set rs \<Longrightarrow> r \<le> collect_first rs c"
proof (induction rs arbitrary: c)
  case Nil
  then show ?case by simp
next
  case (Cons gr rs)
  obtain g q where gr: "gr = (g, q)"
    by (cases gr)
  show ?case
  proof (cases "(f, Inr r) = gr")
    case True
    with gr have q: "q = Inr r"
      by simp
    have "r \<le> take_result r c"
      by (simp add: take_result_max)
    also have "\<dots> \<le> collect_first rs (take_result r c)"
      by (rule collect_first_ge)
    finally show ?thesis
      using gr q by simp
  next
    case False
    with Cons.prems have "(f, Inr r) \<in> set rs"
      by simp
    from Cons.IH [OF this] gr show ?thesis
      by simp
  qed
qed

lemma held_time_never_decreases:
  "last_processed_time s \<le> last_processed_time (monitor_cycle tk s)"
  unfolding monitor_cycle_fields(1) by (rule collect_first_ge)

lemma held_time_is_greatest:
  "\<forall>f \<in> set (new_files (listing tk) (processed_files s)). \<forall>r.
      returned (files tk) (database tk f) f (last_processed_time s) = Inr r
        \<longrightarrow> r \<le> last_processed_time (monitor_cycle tk s)"
  "last_processed_time (monitor_cycle tk s) = last_processed_time s
   \<or> (\<exists>f \<in> set (new_files (listing tk) (processed_files s)).
         returned (files tk) (database tk f) f (last_processed_time s)
           = Inr (last_processed_time (monitor_cycle tk s)))"
proof -
  let ?fs = "new_files (listing tk) (processed_files s)"
  let ?rs = "map (\<lambda>f. (f, returned (files tk) (database tk f) f (last_processed_time s))) ?fs"
  show "\<forall>f \<in> set ?fs. \<forall>r.
      returned (files tk) (database tk f) f (last_processed_time s) = Inr r
        \<longrightarrow> r \<le> last_processed_time (monitor_cycle tk s)"
  proof (intro ballI allI impI)
    fix f r
    assume "f \<in> set ?fs"
      and "returned (files tk) (database tk f) f (last_processed_time s) = Inr r"
    then have "(f, Inr r) \<in> set ?rs"
      by force
    then show "r \<le> last_processed_time (monitor_cycle tk s)"
      unfolding monitor_cycle_fields(1) by (rule collect_first_upper)
  qed
  from collect_first_mem [of ?rs "last_processed_time s"]
  show "last_processed_time (monitor_cycle tk s) = last_processed_time s
   \<or> (\<exists>f \<in> set ?fs.
         returned (files tk) (database tk f) f (last_processed_time s)
           = Inr (last_processed_time (monitor_cycle tk s)))"
    unfolding monitor_cycle_fields(1) by auto
qed

lemma bookmark_reads_back:
  assumes "last_processed_time (monitor_cycle tk s) = Some t"
    and "is_datetime t" and "1000 \<le> year t"
  shows "read_last_processed_time Read_Ok (bookmark_file (monitor_cycle tk s)) = Inr (Some t)"
  using assms by (simp add: monitor_cycle_fields(3) read_back)

lemma bookmark_lost_below_1000:
  assumes "last_processed_time (monitor_cycle tk s) = Some t" and "year t < 1000"
  shows "read_last_processed_time Read_Ok (bookmark_file (monitor_cycle tk s)) = Inr None"
  using assms by (simp add: monitor_cycle_fields(3) read_back_short)




section \<open>The bookmark never goes back\<close>


section \<open>Facts about cluster values\<close>







lemma fresh_Nil [simp]: "fresh m []"
  by (simp add: fresh_def)

lemma fresh_append [simp]: "fresh m (xs @ ys) \<longleftrightarrow> fresh m xs \<and> fresh m ys"
  by (auto simp: fresh_def)



section \<open>Facts about the rows a pool inserts\<close>












section \<open>Facts about the first run\<close>


















section \<open>The first run\<close>




end
